theory Spec2Isabelle
  imports Complex_Main
begin

section \<open>Configuration: \<open>backend/app/config.py\<close>\<close>

subsection \<open>Python string primitives used by \<open>cors_origins\<close>\<close>

text \<open>
  A Python \<open>str\<close> is a sequence of code points. A \<^typ>\<open>char\<close> stands for one code
  point below 256 here, which covers every origin an environment file normally holds.

  \<open>str.isspace\<close> on that range: the control characters 9 to 13 and 28 to 31, the
  blank, NEL (133) and the no-break space (160). \<open>str.strip()\<close> with no argument
  removes exactly those characters from both ends.
\<close>

definition isspace :: "char \<Rightarrow> bool" where
  "isspace c =
     (let n = (of_char c :: nat)
      in (9 \<le> n \<and> n \<le> 13) \<or> (28 \<le> n \<and> n \<le> 32) \<or> n = 133 \<or> n = 160)"

definition lstrip :: "string \<Rightarrow> string" where
  "lstrip s = dropWhile isspace s"

definition rstrip :: "string \<Rightarrow> string" where
  "rstrip s = rev (dropWhile isspace (rev s))"

definition strip :: "string \<Rightarrow> string" where
  "strip s = rstrip (lstrip s)"

text \<open>
  \<open>s.split(sep)\<close> with a separator of one character: the text is cut at every
  occurrence of the separator, and the pieces between them are returned in order, the
  empty ones included. The accumulator \<open>cur\<close> holds the piece being read, reversed.
\<close>

fun split_from :: "char \<Rightarrow> string \<Rightarrow> string \<Rightarrow> string list" where
  "split_from sep cur [] = [rev cur]"
| "split_from sep cur (c # cs) =
     (if c = sep then rev cur # split_from sep [] cs
      else split_from sep (c # cur) cs)"

definition split :: "string \<Rightarrow> char \<Rightarrow> string list" where
  "split s sep = split_from sep [] s"

text \<open>\<open>sep.join(parts)\<close>, the inverse the claims compare \<open>split\<close> with.\<close>

fun join :: "char \<Rightarrow> string list \<Rightarrow> string" where
  "join sep [] = []"
| "join sep [p] = p"
| "join sep (p # q # ps) = p @ sep # join sep (q # ps)"

subsection \<open>The \<open>Settings\<close> class\<close>

record Settings =
  app_name :: string
  debug :: bool
  database_url :: string
  secret_key :: string
  algorithm :: string
  access_token_expire_minutes :: int
  allowed_origins :: string

text \<open>The class-level defaults of the fields, lines 9 to 21.\<close>

definition Settings_defaults :: Settings where
  "Settings_defaults =
     \<lparr> app_name = ''Meilleur Insights API'',
       debug = True,
       database_url = ''sqlite+aiosqlite:///./meilleur_insights.db'',
       secret_key = ''your-super-secret-key-change-this-in-production'',
       algorithm = ''HS256'',
       access_token_expire_minutes = 30,
       allowed_origins = ''http://localhost:8080,http://localhost:5173'' \<rparr>"

text \<open>
  \<^verbatim>\<open>return [origin.strip() for origin in self.allowed_origins.split(",")]\<close>
\<close>

definition cors_origins :: "Settings \<Rightarrow> string list" where
  "cors_origins self = map strip (split (allowed_origins self) CHR '','')"

subsection \<open>\<open>get_settings\<close> and its \<open>lru_cache\<close>\<close>

text \<open>
  \<open>Settings()\<close> reads each field from the environment (the process environment and the
  \<open>.env\<close> file, looked up by field name) and falls back on the class default. The two
  fields that are not strings are parsed, and a value that does not parse makes the
  constructor raise a validation error naming the fields. How pydantic parses a boolean
  and an integer is not part of this repository: \<open>parse_bool\<close> and \<open>parse_int\<close> are
  parameters.
\<close>

datatype config_error = ValidationError "string list"

definition str_field :: "(string \<Rightarrow> string option) \<Rightarrow> string \<Rightarrow> string \<Rightarrow> string" where
  "str_field environ key dflt = (case environ key of None \<Rightarrow> dflt | Some v \<Rightarrow> v)"

definition parsed_field ::
  "(string \<Rightarrow> 'a option) \<Rightarrow> (string \<Rightarrow> string option) \<Rightarrow> string \<Rightarrow> 'a \<Rightarrow> 'a option" where
  "parsed_field parse environ key dflt =
     (case environ key of None \<Rightarrow> Some dflt | Some v \<Rightarrow> parse v)"

definition Settings_init ::
  "(string \<Rightarrow> bool option) \<Rightarrow> (string \<Rightarrow> int option) \<Rightarrow> (string \<Rightarrow> string option)
     \<Rightarrow> config_error + Settings" where
  "Settings_init parse_bool parse_int environ =
     (let d = parsed_field parse_bool environ ''debug'' (debug Settings_defaults);
          m = parsed_field parse_int environ ''access_token_expire_minutes''
                (access_token_expire_minutes Settings_defaults)
      in case (d, m) of
           (Some dv, Some mv) \<Rightarrow>
             Inr \<lparr> app_name = str_field environ ''app_name'' (app_name Settings_defaults),
                   debug = dv,
                   database_url =
                     str_field environ ''database_url'' (database_url Settings_defaults),
                   secret_key = str_field environ ''secret_key'' (secret_key Settings_defaults),
                   algorithm = str_field environ ''algorithm'' (algorithm Settings_defaults),
                   access_token_expire_minutes = mv,
                   allowed_origins =
                     str_field environ ''allowed_origins'' (allowed_origins Settings_defaults) \<rparr>
         | _ \<Rightarrow>
             Inl (ValidationError
                   ((if d = None then [''debug''] else []) @
                    (if m = None then [''access_token_expire_minutes''] else []))))"

text \<open>
  The state of the process that \<open>get_settings\<close> touches. \<open>objects\<close> are the
  \<open>Settings\<close> instances constructed so far, and an instance is identified by its
  position there, so that two calls return the same instance exactly when they return the
  same position. \<open>cached\<close>, \<open>hits\<close> and \<open>misses\<close> are the state of the
  \<open>lru_cache\<close> wrapper: the function has no argument, so the cache has at most the one
  entry for the empty argument tuple. On a miss the wrapper counts the miss, calls the
  function, and stores the result only when the call returns; an exception passes through
  and nothing is stored.
\<close>

record process =
  objects :: "Settings list"
  cached :: "nat option"
  hits :: nat
  misses :: nat

definition process_start :: process where
  "process_start = \<lparr> objects = [], cached = None, hits = 0, misses = 0 \<rparr>"

definition get_settings ::
  "(string \<Rightarrow> bool option) \<Rightarrow> (string \<Rightarrow> int option) \<Rightarrow> (string \<Rightarrow> string option)
     \<Rightarrow> process \<Rightarrow> (config_error + nat) \<times> process" where
  "get_settings parse_bool parse_int environ p =
     (case cached p of
        Some r \<Rightarrow> (Inr r, p\<lparr>hits := Suc (hits p)\<rparr>)
      | None \<Rightarrow>
          (case Settings_init parse_bool parse_int environ of
             Inl e \<Rightarrow> (Inl e, p\<lparr>misses := Suc (misses p)\<rparr>)
           | Inr s \<Rightarrow>
               (Inr (length (objects p)),
                p\<lparr>objects := objects p @ [s],
                   cached := Some (length (objects p)),
                   misses := Suc (misses p)\<rparr>)))"

text \<open>
  A run of calls, one per entry of the list: the entry is the environment as it stands at
  that call. The results are collected in call order.
\<close>

fun get_settings_calls ::
  "(string \<Rightarrow> bool option) \<Rightarrow> (string \<Rightarrow> int option) \<Rightarrow> (string \<Rightarrow> string option) list
     \<Rightarrow> process \<Rightarrow> (config_error + nat) list \<times> process" where
  "get_settings_calls parse_bool parse_int [] p = ([], p)"
| "get_settings_calls parse_bool parse_int (e # es) p =
     (case get_settings parse_bool parse_int e p of
        (r, p') \<Rightarrow>
          (case get_settings_calls parse_bool parse_int es p' of
             (rs, p'') \<Rightarrow> (r # rs, p'')))"

section \<open>Ledger schema: \<open>backend/app/models\<close>\<close>

subsection \<open>Column declarations\<close>

text \<open>
  The model classes are declarations: each attribute is a \<open>mapped_column(...)\<close> with a
  type and keyword arguments. A \<^emph>\<open>column\<close> records the arguments that constrain what
  the store accepts. \<open>nullable\<close> is the keyword \<open>nullable=\<close> when it is written and
  \<open>None\<close> when it is not; \<open>default_value\<close> is \<open>default=\<close> and \<open>onupdate\<close> is
  \<open>onupdate=\<close>, each a function of the clock reading of the statement, so that a
  constant and \<open>datetime.utcnow\<close> are both covered.

  A \<open>Date\<close> is a day number and a \<open>DateTime\<close> a count of microseconds, both integers.
  A \<open>Float\<close> amount is a real number: the store never computes with it.
\<close>

type_synonym date = int
type_synonym datetime = int

datatype table = Users | Services | Revenues | Expenses

record 'a column =
  primary_key :: bool
  nullable :: "bool option"
  unique :: bool
  index :: bool
  foreign_key :: "table option"
  default_value :: "(datetime \<Rightarrow> 'a) option"
  onupdate :: "(datetime \<Rightarrow> 'a) option"

definition mapped_column :: "'a column" where
  "mapped_column =
     \<lparr> primary_key = False, nullable = None, unique = False, index = False,
       foreign_key = None, default_value = None, onupdate = None \<rparr>"

definition scalar :: "'a \<Rightarrow> datetime \<Rightarrow> 'a" where
  "scalar v now = v"

definition utcnow :: "datetime \<Rightarrow> datetime" where
  "utcnow now = now"

text \<open>
  Whether a column accepts NULL. An explicit \<open>nullable=\<close> decides. Without it the
  annotation decides, and every annotation of these classes is a plain \<open>Mapped[T]\<close>,
  never \<open>Mapped[Optional[T]]\<close>: the column is NOT NULL.
\<close>

definition is_nullable :: "'a column \<Rightarrow> bool" where
  "is_nullable c = (case nullable c of Some b \<Rightarrow> b | None \<Rightarrow> False)"

text \<open>A field is required when its column is NOT NULL and nothing fills it in.\<close>

definition required :: "'a column \<Rightarrow> bool" where
  "required c = (\<not> is_nullable c \<and> \<not> primary_key c \<and> default_value c = None)"

definition missing :: "'a column \<Rightarrow> 'a option \<Rightarrow> bool" where
  "missing c v = (required c \<and> v = None)"

text \<open>\<open>service.py\<close>, lines 12 to 28.\<close>

definition Service_id :: "int column" where
  "Service_id = mapped_column\<lparr>primary_key := True, index := True\<rparr>"

definition Service_name :: "string column" where
  "Service_name = mapped_column\<lparr>unique := True, index := True\<rparr>"

definition Service_description :: "string column" where
  "Service_description = mapped_column\<lparr>nullable := Some True\<rparr>"

definition Service_icon :: "string column" where
  "Service_icon = mapped_column\<lparr>default_value := Some (scalar ''building'')\<rparr>"

definition Service_color :: "string column" where
  "Service_color = mapped_column\<lparr>default_value := Some (scalar ''blue'')\<rparr>"

definition Service_is_active :: "bool column" where
  "Service_is_active = mapped_column\<lparr>default_value := Some (scalar True)\<rparr>"

definition Service_daily_target :: "real column" where
  "Service_daily_target = mapped_column\<lparr>default_value := Some (scalar 0)\<rparr>"

definition Service_monthly_target :: "real column" where
  "Service_monthly_target = mapped_column\<lparr>default_value := Some (scalar 0)\<rparr>"

definition Service_yearly_target :: "real column" where
  "Service_yearly_target = mapped_column\<lparr>default_value := Some (scalar 0)\<rparr>"

definition Service_created_at :: "datetime column" where
  "Service_created_at = mapped_column\<lparr>default_value := Some utcnow\<rparr>"

definition Service_updated_at :: "datetime column" where
  "Service_updated_at = mapped_column\<lparr>default_value := Some utcnow, onupdate := Some utcnow\<rparr>"

text \<open>\<open>revenue.py\<close>, lines 12 to 25.\<close>

definition Revenue_id :: "int column" where
  "Revenue_id = mapped_column\<lparr>primary_key := True, index := True\<rparr>"

definition Revenue_service_id :: "int column" where
  "Revenue_service_id = mapped_column\<lparr>foreign_key := Some Services, index := True\<rparr>"

definition Revenue_amount :: "real column" where
  "Revenue_amount = mapped_column\<lparr>nullable := Some False\<rparr>"

definition Revenue_date :: "date column" where
  "Revenue_date = mapped_column\<lparr>nullable := Some False, index := True\<rparr>"

definition Revenue_description :: "string column" where
  "Revenue_description = mapped_column\<lparr>nullable := Some True\<rparr>"

definition Revenue_payment_method :: "string column" where
  "Revenue_payment_method = mapped_column\<lparr>default_value := Some (scalar ''cash'')\<rparr>"

definition Revenue_reference :: "string column" where
  "Revenue_reference = mapped_column\<lparr>nullable := Some True\<rparr>"

definition Revenue_created_by :: "int column" where
  "Revenue_created_by = mapped_column\<lparr>foreign_key := Some Users, nullable := Some True\<rparr>"

definition Revenue_created_at :: "datetime column" where
  "Revenue_created_at = mapped_column\<lparr>default_value := Some utcnow\<rparr>"

definition Revenue_updated_at :: "datetime column" where
  "Revenue_updated_at = mapped_column\<lparr>default_value := Some utcnow, onupdate := Some utcnow\<rparr>"

text \<open>\<open>expense.py\<close>, lines 12 to 26.\<close>

definition Expense_id :: "int column" where
  "Expense_id = mapped_column\<lparr>primary_key := True, index := True\<rparr>"

definition Expense_service_id :: "int column" where
  "Expense_service_id =
     mapped_column\<lparr>foreign_key := Some Services, index := True, nullable := Some True\<rparr>"

definition Expense_amount :: "real column" where
  "Expense_amount = mapped_column\<lparr>nullable := Some False\<rparr>"

definition Expense_date :: "date column" where
  "Expense_date = mapped_column\<lparr>nullable := Some False, index := True\<rparr>"

definition Expense_category :: "string column" where
  "Expense_category = mapped_column\<lparr>nullable := Some False\<rparr>"

definition Expense_description :: "string column" where
  "Expense_description = mapped_column\<lparr>nullable := Some True\<rparr>"

definition Expense_vendor :: "string column" where
  "Expense_vendor = mapped_column\<lparr>nullable := Some True\<rparr>"

definition Expense_is_recurring :: "bool column" where
  "Expense_is_recurring = mapped_column\<lparr>default_value := Some (scalar False)\<rparr>"

definition Expense_created_by :: "int column" where
  "Expense_created_by = mapped_column\<lparr>foreign_key := Some Users, nullable := Some True\<rparr>"

definition Expense_created_at :: "datetime column" where
  "Expense_created_at = mapped_column\<lparr>default_value := Some utcnow\<rparr>"

definition Expense_updated_at :: "datetime column" where
  "Expense_updated_at = mapped_column\<lparr>default_value := Some utcnow, onupdate := Some utcnow\<rparr>"

subsection \<open>Rows\<close>

text \<open>
  A row holds one value per column other than the primary key, \<open>None\<close> for NULL. The
  same record is what a client hands to an insertion, where \<open>None\<close> is an attribute
  left unset (the ORM treats an attribute set to \<open>None\<close> and an unset one alike when it
  inserts). The primary key is allocated by the store and travels beside the row.
\<close>

record service =
  name :: "string option"
  description :: "string option"
  icon :: "string option"
  color :: "string option"
  is_active :: "bool option"
  daily_target :: "real option"
  monthly_target :: "real option"
  yearly_target :: "real option"
  created_at :: "datetime option"
  updated_at :: "datetime option"

record revenue =
  service_id :: "int option"
  amount :: "real option"
  date :: "date option"
  description :: "string option"
  payment_method :: "string option"
  reference :: "string option"
  created_by :: "int option"
  created_at :: "datetime option"
  updated_at :: "datetime option"

record expense =
  service_id :: "int option"
  amount :: "real option"
  date :: "date option"
  category :: "string option"
  description :: "string option"
  vendor :: "string option"
  is_recurring :: "bool option"
  created_by :: "int option"
  created_at :: "datetime option"
  updated_at :: "datetime option"

text \<open>
  The SET clause of an update: per column, \<open>None\<close> when the statement does not assign
  the column, \<open>Some v\<close> when it assigns \<open>v\<close> (\<open>Some None\<close> assigns NULL).
\<close>

record service_changes =
  name :: "string option option"
  description :: "string option option"
  icon :: "string option option"
  color :: "string option option"
  is_active :: "bool option option"
  daily_target :: "real option option"
  monthly_target :: "real option option"
  yearly_target :: "real option option"
  created_at :: "datetime option option"
  updated_at :: "datetime option option"

record revenue_changes =
  service_id :: "int option option"
  amount :: "real option option"
  date :: "date option option"
  description :: "string option option"
  payment_method :: "string option option"
  reference :: "string option option"
  created_by :: "int option option"
  created_at :: "datetime option option"
  updated_at :: "datetime option option"

record expense_changes =
  service_id :: "int option option"
  amount :: "real option option"
  date :: "date option option"
  category :: "string option option"
  description :: "string option option"
  vendor :: "string option option"
  is_recurring :: "bool option option"
  created_by :: "int option option"
  created_at :: "datetime option option"
  updated_at :: "datetime option option"


definition revenue_no_changes :: revenue_changes where
  "revenue_no_changes =
     \<lparr> revenue_changes.service_id = None, amount = None, date = None, description = None,
       payment_method = None, reference = None, created_by = None,
       created_at = None, updated_at = None \<rparr>"

definition expense_no_changes :: expense_changes where
  "expense_no_changes =
     \<lparr> expense_changes.service_id = None, amount = None, date = None, category = None,
       description = None, vendor = None, is_recurring = None, created_by = None,
       created_at = None, updated_at = None \<rparr>"

subsection \<open>The store\<close>

text \<open>
  The tables of the three classes under \<open>models/\<close>, each a list of rows with their
  keys in insertion order.

  Modelled from the spec: the \<open>users\<close> table. \<open>app/models/user.py\<close> is not among the
  sources; of a User only the primary key matters here, as the target of
  \<open>created_by\<close> ("User: authors records; referenced by Revenue and Expense as
  creator"), so the table is the list of its keys.
\<close>

record store =
  users :: "int list"
  services :: "(int \<times> service) list"
  revenues :: "(int \<times> revenue) list"
  expenses :: "(int \<times> expense) list"

definition empty_store :: store where
  "empty_store = \<lparr> users = [], services = [], revenues = [], expenses = [] \<rparr>"

definition ids :: "(int \<times> 'r) list \<Rightarrow> int list" where
  "ids t = map fst t"

definition lookup :: "(int \<times> 'r) list \<Rightarrow> int \<Rightarrow> 'r option" where
  "lookup t k = map_of t k"

text \<open>An integer primary key left unset is given the largest key in use plus one.\<close>

definition next_id :: "int list \<Rightarrow> int" where
  "next_id ks = fold max ks 0 + 1"

definition replace_row :: "int \<Rightarrow> 'r \<Rightarrow> (int \<times> 'r) list \<Rightarrow> (int \<times> 'r) list" where
  "replace_row k r t = map (\<lambda>(i, x). if i = k then (i, r) else (i, x)) t"

definition delete_row :: "int \<Rightarrow> (int \<times> 'r) list \<Rightarrow> (int \<times> 'r) list" where
  "delete_row k t = filter (\<lambda>(i, x). i \<noteq> k) t"

definition table_ids :: "store \<Rightarrow> table \<Rightarrow> int list" where
  "table_ids st t =
     (case t of
        Users \<Rightarrow> users st
      | Services \<Rightarrow> ids (services st)
      | Revenues \<Rightarrow> ids (revenues st)
      | Expenses \<Rightarrow> ids (expenses st))"

subsection \<open>Constraint checking\<close>

text \<open>
  The store enforces what the columns declare: NOT NULL, UNIQUE and FOREIGN KEY, and
  reports a violation as an integrity error. The lengths of \<open>String(n)\<close> are not
  enforced. An operation on a key that is not in the table is reported as not found.
\<close>

datatype violation = NotNull | Unique | ForeignKey

datatype error = IntegrityError violation | NotFound

definition insert_value :: "'a column \<Rightarrow> datetime \<Rightarrow> 'a option \<Rightarrow> 'a option" where
  "insert_value c now v =
     (case v of
        Some x \<Rightarrow> Some x
      | None \<Rightarrow> (case default_value c of Some f \<Rightarrow> Some (f now) | None \<Rightarrow> None))"

definition update_value ::
  "'a column \<Rightarrow> datetime \<Rightarrow> 'a option option \<Rightarrow> 'a option \<Rightarrow> 'a option" where
  "update_value c now chg old =
     (case chg of
        Some v \<Rightarrow> v
      | None \<Rightarrow> (case onupdate c of Some f \<Rightarrow> Some (f now) | None \<Rightarrow> old))"

definition not_null_ok :: "'a column \<Rightarrow> 'a option \<Rightarrow> bool" where
  "not_null_ok c v = (is_nullable c \<or> v \<noteq> None)"

definition unique_ok :: "'a column \<Rightarrow> 'a option \<Rightarrow> 'a option list \<Rightarrow> bool" where
  "unique_ok c v others = (\<not> unique c \<or> v = None \<or> v \<notin> set others)"

definition foreign_key_ok :: "store \<Rightarrow> int column \<Rightarrow> int option \<Rightarrow> bool" where
  "foreign_key_ok st c v =
     (case foreign_key c of
        None \<Rightarrow> True
      | Some t \<Rightarrow> (case v of None \<Rightarrow> True | Some k \<Rightarrow> k \<in> set (table_ids st t)))"

subsection \<open>Services\<close>

definition service_defaults :: "datetime \<Rightarrow> service \<Rightarrow> service" where
  "service_defaults now v =
     \<lparr> service.name = insert_value Service_name now (service.name v),
       description = insert_value Service_description now (service.description v),
       icon = insert_value Service_icon now (service.icon v),
       color = insert_value Service_color now (service.color v),
       is_active = insert_value Service_is_active now (service.is_active v),
       daily_target = insert_value Service_daily_target now (service.daily_target v),
       monthly_target = insert_value Service_monthly_target now (service.monthly_target v),
       yearly_target = insert_value Service_yearly_target now (service.yearly_target v),
       created_at = insert_value Service_created_at now (service.created_at v),
       updated_at = insert_value Service_updated_at now (service.updated_at v) \<rparr>"

definition service_assign :: "datetime \<Rightarrow> service_changes \<Rightarrow> service \<Rightarrow> service" where
  "service_assign now chg old =
     \<lparr> service.name = update_value Service_name now (service_changes.name chg) (service.name old),
       description = update_value Service_description now
                       (service_changes.description chg) (service.description old),
       icon = update_value Service_icon now (service_changes.icon chg) (service.icon old),
       color = update_value Service_color now (service_changes.color chg) (service.color old),
       is_active = update_value Service_is_active now
                     (service_changes.is_active chg) (service.is_active old),
       daily_target = update_value Service_daily_target now
                        (service_changes.daily_target chg) (service.daily_target old),
       monthly_target = update_value Service_monthly_target now
                          (service_changes.monthly_target chg) (service.monthly_target old),
       yearly_target = update_value Service_yearly_target now
                         (service_changes.yearly_target chg) (service.yearly_target old),
       created_at = update_value Service_created_at now
                      (service_changes.created_at chg) (service.created_at old),
       updated_at = update_value Service_updated_at now
                      (service_changes.updated_at chg) (service.updated_at old) \<rparr>"

definition service_not_null :: "service \<Rightarrow> bool" where
  "service_not_null r =
     (not_null_ok Service_name (service.name r)
      \<and> not_null_ok Service_description (service.description r)
      \<and> not_null_ok Service_icon (service.icon r)
      \<and> not_null_ok Service_color (service.color r)
      \<and> not_null_ok Service_is_active (service.is_active r)
      \<and> not_null_ok Service_daily_target (service.daily_target r)
      \<and> not_null_ok Service_monthly_target (service.monthly_target r)
      \<and> not_null_ok Service_yearly_target (service.yearly_target r)
      \<and> not_null_ok Service_created_at (service.created_at r)
      \<and> not_null_ok Service_updated_at (service.updated_at r))"

definition service_unique :: "(int \<times> service) list \<Rightarrow> service \<Rightarrow> bool" where
  "service_unique others r =
     (unique_ok Service_name (service.name r) (map (service.name \<circ> snd) others)
      \<and> unique_ok Service_description (service.description r)
            (map (service.description \<circ> snd) others)
      \<and> unique_ok Service_icon (service.icon r) (map (service.icon \<circ> snd) others)
      \<and> unique_ok Service_color (service.color r) (map (service.color \<circ> snd) others)
      \<and> unique_ok Service_is_active (service.is_active r)
            (map (service.is_active \<circ> snd) others)
      \<and> unique_ok Service_daily_target (service.daily_target r)
            (map (service.daily_target \<circ> snd) others)
      \<and> unique_ok Service_monthly_target (service.monthly_target r)
            (map (service.monthly_target \<circ> snd) others)
      \<and> unique_ok Service_yearly_target (service.yearly_target r)
            (map (service.yearly_target \<circ> snd) others)
      \<and> unique_ok Service_created_at (service.created_at r)
            (map (service.created_at \<circ> snd) others)
      \<and> unique_ok Service_updated_at (service.updated_at r)
            (map (service.updated_at \<circ> snd) others))"

definition insert_service ::
  "datetime \<Rightarrow> service \<Rightarrow> store \<Rightarrow> store \<times> (error + int \<times> service)" where
  "insert_service now v st =
     (let row = service_defaults now v
      in if \<not> service_not_null row then (st, Inl (IntegrityError NotNull))
         else if \<not> service_unique (services st) row then (st, Inl (IntegrityError Unique))
         else let k = next_id (ids (services st))
              in (st\<lparr>services := services st @ [(k, row)]\<rparr>, Inr (k, row)))"

definition update_service ::
  "datetime \<Rightarrow> int \<Rightarrow> service_changes \<Rightarrow> store \<Rightarrow> store \<times> (error + int \<times> service)" where
  "update_service now k chg st =
     (case lookup (services st) k of
        None \<Rightarrow> (st, Inl NotFound)
      | Some old \<Rightarrow>
          (let row = service_assign now chg old
           in if \<not> service_not_null row then (st, Inl (IntegrityError NotNull))
              else if \<not> service_unique (delete_row k (services st)) row
                then (st, Inl (IntegrityError Unique))
              else (st\<lparr>services := replace_row k row (services st)\<rparr>, Inr (k, row))))"

subsection \<open>Revenues\<close>

definition revenue_defaults :: "datetime \<Rightarrow> revenue \<Rightarrow> revenue" where
  "revenue_defaults now v =
     \<lparr> revenue.service_id = insert_value Revenue_service_id now (revenue.service_id v),
       amount = insert_value Revenue_amount now (revenue.amount v),
       date = insert_value Revenue_date now (revenue.date v),
       description = insert_value Revenue_description now (revenue.description v),
       payment_method = insert_value Revenue_payment_method now (revenue.payment_method v),
       reference = insert_value Revenue_reference now (revenue.reference v),
       created_by = insert_value Revenue_created_by now (revenue.created_by v),
       created_at = insert_value Revenue_created_at now (revenue.created_at v),
       updated_at = insert_value Revenue_updated_at now (revenue.updated_at v) \<rparr>"

definition revenue_assign :: "datetime \<Rightarrow> revenue_changes \<Rightarrow> revenue \<Rightarrow> revenue" where
  "revenue_assign now chg old =
     \<lparr> revenue.service_id = update_value Revenue_service_id now
                              (revenue_changes.service_id chg) (revenue.service_id old),
       amount = update_value Revenue_amount now
                  (revenue_changes.amount chg) (revenue.amount old),
       date = update_value Revenue_date now (revenue_changes.date chg) (revenue.date old),
       description = update_value Revenue_description now
                       (revenue_changes.description chg) (revenue.description old),
       payment_method = update_value Revenue_payment_method now
                          (revenue_changes.payment_method chg) (revenue.payment_method old),
       reference = update_value Revenue_reference now
                     (revenue_changes.reference chg) (revenue.reference old),
       created_by = update_value Revenue_created_by now
                      (revenue_changes.created_by chg) (revenue.created_by old),
       created_at = update_value Revenue_created_at now
                      (revenue_changes.created_at chg) (revenue.created_at old),
       updated_at = update_value Revenue_updated_at now
                      (revenue_changes.updated_at chg) (revenue.updated_at old) \<rparr>"

definition revenue_not_null :: "revenue \<Rightarrow> bool" where
  "revenue_not_null r =
     (not_null_ok Revenue_service_id (revenue.service_id r)
      \<and> not_null_ok Revenue_amount (revenue.amount r)
      \<and> not_null_ok Revenue_date (revenue.date r)
      \<and> not_null_ok Revenue_description (revenue.description r)
      \<and> not_null_ok Revenue_payment_method (revenue.payment_method r)
      \<and> not_null_ok Revenue_reference (revenue.reference r)
      \<and> not_null_ok Revenue_created_by (revenue.created_by r)
      \<and> not_null_ok Revenue_created_at (revenue.created_at r)
      \<and> not_null_ok Revenue_updated_at (revenue.updated_at r))"

definition revenue_unique :: "(int \<times> revenue) list \<Rightarrow> revenue \<Rightarrow> bool" where
  "revenue_unique others r =
     (unique_ok Revenue_service_id (revenue.service_id r)
            (map (revenue.service_id \<circ> snd) others)
      \<and> unique_ok Revenue_amount (revenue.amount r) (map (revenue.amount \<circ> snd) others)
      \<and> unique_ok Revenue_date (revenue.date r) (map (revenue.date \<circ> snd) others)
      \<and> unique_ok Revenue_description (revenue.description r)
            (map (revenue.description \<circ> snd) others)
      \<and> unique_ok Revenue_payment_method (revenue.payment_method r)
            (map (revenue.payment_method \<circ> snd) others)
      \<and> unique_ok Revenue_reference (revenue.reference r)
            (map (revenue.reference \<circ> snd) others)
      \<and> unique_ok Revenue_created_by (revenue.created_by r)
            (map (revenue.created_by \<circ> snd) others)
      \<and> unique_ok Revenue_created_at (revenue.created_at r)
            (map (revenue.created_at \<circ> snd) others)
      \<and> unique_ok Revenue_updated_at (revenue.updated_at r)
            (map (revenue.updated_at \<circ> snd) others))"

definition revenue_foreign_keys :: "store \<Rightarrow> revenue \<Rightarrow> bool" where
  "revenue_foreign_keys st r =
     (foreign_key_ok st Revenue_service_id (revenue.service_id r)
      \<and> foreign_key_ok st Revenue_created_by (revenue.created_by r))"

definition insert_revenue ::
  "datetime \<Rightarrow> revenue \<Rightarrow> store \<Rightarrow> store \<times> (error + int \<times> revenue)" where
  "insert_revenue now v st =
     (let row = revenue_defaults now v
      in if \<not> revenue_not_null row then (st, Inl (IntegrityError NotNull))
         else if \<not> revenue_unique (revenues st) row then (st, Inl (IntegrityError Unique))
         else if \<not> revenue_foreign_keys st row then (st, Inl (IntegrityError ForeignKey))
         else let k = next_id (ids (revenues st))
              in (st\<lparr>revenues := revenues st @ [(k, row)]\<rparr>, Inr (k, row)))"

definition update_revenue ::
  "datetime \<Rightarrow> int \<Rightarrow> revenue_changes \<Rightarrow> store \<Rightarrow> store \<times> (error + int \<times> revenue)" where
  "update_revenue now k chg st =
     (case lookup (revenues st) k of
        None \<Rightarrow> (st, Inl NotFound)
      | Some old \<Rightarrow>
          (let row = revenue_assign now chg old
           in if \<not> revenue_not_null row then (st, Inl (IntegrityError NotNull))
              else if \<not> revenue_unique (delete_row k (revenues st)) row
                then (st, Inl (IntegrityError Unique))
              else if \<not> revenue_foreign_keys st row then (st, Inl (IntegrityError ForeignKey))
              else (st\<lparr>revenues := replace_row k row (revenues st)\<rparr>, Inr (k, row))))"

definition delete_revenue :: "int \<Rightarrow> store \<Rightarrow> store \<times> (error + unit)" where
  "delete_revenue k st =
     (case lookup (revenues st) k of
        None \<Rightarrow> (st, Inl NotFound)
      | Some old \<Rightarrow> (st\<lparr>revenues := delete_row k (revenues st)\<rparr>, Inr ()))"

subsection \<open>Expenses\<close>

definition expense_defaults :: "datetime \<Rightarrow> expense \<Rightarrow> expense" where
  "expense_defaults now v =
     \<lparr> expense.service_id = insert_value Expense_service_id now (expense.service_id v),
       amount = insert_value Expense_amount now (expense.amount v),
       date = insert_value Expense_date now (expense.date v),
       category = insert_value Expense_category now (expense.category v),
       description = insert_value Expense_description now (expense.description v),
       vendor = insert_value Expense_vendor now (expense.vendor v),
       is_recurring = insert_value Expense_is_recurring now (expense.is_recurring v),
       created_by = insert_value Expense_created_by now (expense.created_by v),
       created_at = insert_value Expense_created_at now (expense.created_at v),
       updated_at = insert_value Expense_updated_at now (expense.updated_at v) \<rparr>"

definition expense_assign :: "datetime \<Rightarrow> expense_changes \<Rightarrow> expense \<Rightarrow> expense" where
  "expense_assign now chg old =
     \<lparr> expense.service_id = update_value Expense_service_id now
           (expense_changes.service_id chg) (expense.service_id old),
       amount = update_value Expense_amount now
           (expense_changes.amount chg) (expense.amount old),
       date = update_value Expense_date now
           (expense_changes.date chg) (expense.date old),
       category = update_value Expense_category now
           (expense_changes.category chg) (expense.category old),
       description = update_value Expense_description now
           (expense_changes.description chg) (expense.description old),
       vendor = update_value Expense_vendor now
           (expense_changes.vendor chg) (expense.vendor old),
       is_recurring = update_value Expense_is_recurring now
           (expense_changes.is_recurring chg) (expense.is_recurring old),
       created_by = update_value Expense_created_by now
           (expense_changes.created_by chg) (expense.created_by old),
       created_at = update_value Expense_created_at now
           (expense_changes.created_at chg) (expense.created_at old),
       updated_at = update_value Expense_updated_at now
           (expense_changes.updated_at chg) (expense.updated_at old) \<rparr>"

definition expense_not_null :: "expense \<Rightarrow> bool" where
  "expense_not_null r =
     (not_null_ok Expense_service_id (expense.service_id r)
      \<and> not_null_ok Expense_amount (expense.amount r)
      \<and> not_null_ok Expense_date (expense.date r)
      \<and> not_null_ok Expense_category (expense.category r)
      \<and> not_null_ok Expense_description (expense.description r)
      \<and> not_null_ok Expense_vendor (expense.vendor r)
      \<and> not_null_ok Expense_is_recurring (expense.is_recurring r)
      \<and> not_null_ok Expense_created_by (expense.created_by r)
      \<and> not_null_ok Expense_created_at (expense.created_at r)
      \<and> not_null_ok Expense_updated_at (expense.updated_at r))"

definition expense_unique :: "(int \<times> expense) list \<Rightarrow> expense \<Rightarrow> bool" where
  "expense_unique others r =
     (unique_ok Expense_service_id (expense.service_id r)
            (map (expense.service_id \<circ> snd) others)
      \<and> unique_ok Expense_amount (expense.amount r)
            (map (expense.amount \<circ> snd) others)
      \<and> unique_ok Expense_date (expense.date r)
            (map (expense.date \<circ> snd) others)
      \<and> unique_ok Expense_category (expense.category r)
            (map (expense.category \<circ> snd) others)
      \<and> unique_ok Expense_description (expense.description r)
            (map (expense.description \<circ> snd) others)
      \<and> unique_ok Expense_vendor (expense.vendor r)
            (map (expense.vendor \<circ> snd) others)
      \<and> unique_ok Expense_is_recurring (expense.is_recurring r)
            (map (expense.is_recurring \<circ> snd) others)
      \<and> unique_ok Expense_created_by (expense.created_by r)
            (map (expense.created_by \<circ> snd) others)
      \<and> unique_ok Expense_created_at (expense.created_at r)
            (map (expense.created_at \<circ> snd) others)
      \<and> unique_ok Expense_updated_at (expense.updated_at r)
            (map (expense.updated_at \<circ> snd) others))"

definition expense_foreign_keys :: "store \<Rightarrow> expense \<Rightarrow> bool" where
  "expense_foreign_keys st r =
     (foreign_key_ok st Expense_service_id (expense.service_id r)
      \<and> foreign_key_ok st Expense_created_by (expense.created_by r))"

definition insert_expense ::
  "datetime \<Rightarrow> expense \<Rightarrow> store \<Rightarrow> store \<times> (error + int \<times> expense)" where
  "insert_expense now v st =
     (let row = expense_defaults now v
      in if \<not> expense_not_null row then (st, Inl (IntegrityError NotNull))
         else if \<not> expense_unique (expenses st) row then (st, Inl (IntegrityError Unique))
         else if \<not> expense_foreign_keys st row then (st, Inl (IntegrityError ForeignKey))
         else let k = next_id (ids (expenses st))
              in (st\<lparr>expenses := expenses st @ [(k, row)]\<rparr>, Inr (k, row)))"

definition update_expense ::
  "datetime \<Rightarrow> int \<Rightarrow> expense_changes \<Rightarrow> store \<Rightarrow> store \<times> (error + int \<times> expense)" where
  "update_expense now k chg st =
     (case lookup (expenses st) k of
        None \<Rightarrow> (st, Inl NotFound)
      | Some old \<Rightarrow>
          (let row = expense_assign now chg old
           in if \<not> expense_not_null row then (st, Inl (IntegrityError NotNull))
              else if \<not> expense_unique (delete_row k (expenses st)) row
                then (st, Inl (IntegrityError Unique))
              else if \<not> expense_foreign_keys st row then (st, Inl (IntegrityError ForeignKey))
              else (st\<lparr>expenses := replace_row k row (expenses st)\<rparr>, Inr (k, row))))"

definition delete_expense :: "int \<Rightarrow> store \<Rightarrow> store \<times> (error + unit)" where
  "delete_expense k st =
     (case lookup (expenses st) k of
        None \<Rightarrow> (st, Inl NotFound)
      | Some old \<Rightarrow> (st\<lparr>expenses := delete_row k (expenses st)\<rparr>, Inr ()))"

subsection \<open>Deleting a service\<close>

text \<open>
  The two ways a Service row is deleted. Both foreign keys on \<open>services.id\<close> are
  declared without \<open>ondelete\<close>, so a DELETE statement is refused while a revenue or an
  expense still refers to the row. \<open>session.delete(service)\<close> goes through the
  relationships \<open>revenues\<close> and \<open>expenses\<close>, which are declared without a cascade:
  the ORM first detaches every child by an UPDATE that sets its \<open>service_id\<close> to NULL
  (an update like any other, so \<open>onupdate\<close> applies), and the NOT NULL check of the
  child's table decides whether that is accepted. The tables of \<open>Madeni\<close> and \<open>Goal\<close>
  are not among the sources and are not part of the store.
\<close>

datatype delete_via = Statement | Session

definition orphan_revenue :: "datetime \<Rightarrow> revenue \<Rightarrow> revenue" where
  "orphan_revenue now r =
     revenue_assign now (revenue_no_changes\<lparr>revenue_changes.service_id := Some None\<rparr>) r"

definition orphan_expense :: "datetime \<Rightarrow> expense \<Rightarrow> expense" where
  "orphan_expense now r =
     expense_assign now (expense_no_changes\<lparr>expense_changes.service_id := Some None\<rparr>) r"

definition delete_service ::
  "delete_via \<Rightarrow> datetime \<Rightarrow> int \<Rightarrow> store \<Rightarrow> store \<times> (error + unit)" where
  "delete_service via now k st =
     (case lookup (services st) k of
        None \<Rightarrow> (st, Inl NotFound)
      | Some old \<Rightarrow>
          (case via of
             Statement \<Rightarrow>
               if Some k \<in> set (map (revenue.service_id \<circ> snd) (revenues st))
                  \<or> Some k \<in> set (map (expense.service_id \<circ> snd) (expenses st))
               then (st, Inl (IntegrityError ForeignKey))
               else (st\<lparr>services := delete_row k (services st)\<rparr>, Inr ())
           | Session \<Rightarrow>
               if list_ex (\<lambda>(i, r). revenue.service_id r = Some k
                                    \<and> \<not> revenue_not_null (orphan_revenue now r)) (revenues st)
                  \<or> list_ex (\<lambda>(i, r). expense.service_id r = Some k
                                    \<and> \<not> expense_not_null (orphan_expense now r)) (expenses st)
               then (st, Inl (IntegrityError NotNull))
               else (st\<lparr>services := delete_row k (services st),
                        revenues :=
                          map (\<lambda>(i, r). (i, if revenue.service_id r = Some k
                                             then orphan_revenue now r else r)) (revenues st),
                        expenses :=
                          map (\<lambda>(i, r). (i, if expense.service_id r = Some k
                                             then orphan_expense now r else r)) (expenses st)\<rparr>,
                     Inr ())))"

subsection \<open>Users\<close>

text \<open>
  Modelled from the spec: creating and deleting a User, whose class is not among the
  sources. A new user gets a fresh key; a user that a revenue or an expense names in
  \<open>created_by\<close> cannot be deleted, as for any foreign key without \<open>ondelete\<close>.
\<close>

definition insert_user :: "store \<Rightarrow> store \<times> (error + int)" where
  "insert_user st =
     (let k = next_id (users st) in (st\<lparr>users := users st @ [k]\<rparr>, Inr k))"

definition delete_user :: "int \<Rightarrow> store \<Rightarrow> store \<times> (error + unit)" where
  "delete_user k st =
     (if k \<notin> set (users st) then (st, Inl NotFound)
      else if Some k \<in> set (map (revenue.created_by \<circ> snd) (revenues st))
              \<or> Some k \<in> set (map (expense.created_by \<circ> snd) (expenses st))
        then (st, Inl (IntegrityError ForeignKey))
      else (st\<lparr>users := filter (\<lambda>i. i \<noteq> k) (users st)\<rparr>, Inr ()))"

subsection \<open>Reachable stores\<close>

text \<open>
  The operations a client of the schema can issue, each with the clock reading it runs
  at, and the stores they lead to from the empty one. A failed operation leaves the store
  as it was.
\<close>

datatype operation =
    InsertUser
  | DeleteUser int
  | InsertService datetime service
  | UpdateService datetime int service_changes
  | DeleteService delete_via datetime int
  | InsertRevenue datetime revenue
  | UpdateRevenue datetime int revenue_changes
  | DeleteRevenue int
  | InsertExpense datetime expense
  | UpdateExpense datetime int expense_changes
  | DeleteExpense int

fun exec :: "operation \<Rightarrow> store \<Rightarrow> store" where
  "exec InsertUser st = fst (insert_user st)"
| "exec (DeleteUser k) st = fst (delete_user k st)"
| "exec (InsertService now v) st = fst (insert_service now v st)"
| "exec (UpdateService now k chg) st = fst (update_service now k chg st)"
| "exec (DeleteService via now k) st = fst (delete_service via now k st)"
| "exec (InsertRevenue now v) st = fst (insert_revenue now v st)"
| "exec (UpdateRevenue now k chg) st = fst (update_revenue now k chg st)"
| "exec (DeleteRevenue k) st = fst (delete_revenue k st)"
| "exec (InsertExpense now v) st = fst (insert_expense now v st)"
| "exec (UpdateExpense now k chg) st = fst (update_expense now k chg st)"
| "exec (DeleteExpense k) st = fst (delete_expense k st)"

inductive reachable :: "store \<Rightarrow> bool" where
  reachable_empty: "reachable empty_store"
| reachable_exec: "reachable st \<Longrightarrow> reachable (exec opn st)"

subsection \<open>Integrity of a store\<close>

text \<open>
  What the declared constraints amount to for a whole store: keys are not repeated, every
  row passes the NOT NULL check of its table, service names are not repeated, and every
  foreign key of a revenue or an expense passes its check against the store.
\<close>

definition services_ok :: "store \<Rightarrow> bool" where
  "services_ok st =
     (distinct (ids (services st))
      \<and> list_all (\<lambda>(k, r). service_not_null r) (services st)
      \<and> distinct (map (service.name \<circ> snd) (services st)))"

definition revenues_ok :: "store \<Rightarrow> bool" where
  "revenues_ok st =
     (distinct (ids (revenues st))
      \<and> list_all (\<lambda>(k, r). revenue_not_null r \<and> revenue_foreign_keys st r) (revenues st))"

definition expenses_ok :: "store \<Rightarrow> bool" where
  "expenses_ok st =
     (distinct (ids (expenses st))
      \<and> list_all (\<lambda>(k, r). expense_not_null r \<and> expense_foreign_keys st r) (expenses st))"

definition integrity :: "store \<Rightarrow> bool" where
  "integrity st = (services_ok st \<and> revenues_ok st \<and> expenses_ok st)"

subsection \<open>Required fields\<close>




subsection \<open>An example store\<close>

text \<open>
  One service, one revenue of that service and one expense without a service, inserted in
  that order at the clock readings 10, 20 and 30. The concrete instances of the theorems
  below are taken in this store.
\<close>

definition demo_service :: service where
  "demo_service =
     \<lparr> service.name = Some ''Transport'', description = None, icon = None, color = None,
       is_active = None, daily_target = None, monthly_target = None, yearly_target = None,
       created_at = None, updated_at = None \<rparr>"

definition demo_revenue :: revenue where
  "demo_revenue =
     \<lparr> revenue.service_id = Some 1, amount = Some 250, date = Some 19000,
       description = None, payment_method = None, reference = None, created_by = None,
       created_at = None, updated_at = None \<rparr>"

definition demo_expense :: expense where
  "demo_expense =
     \<lparr> expense.service_id = None, amount = Some 40, date = Some 19000,
       category = Some ''fixed'', description = None, vendor = None, is_recurring = None,
       created_by = None, created_at = None, updated_at = None \<rparr>"

definition demo_store :: store where
  "demo_store =
     exec (InsertExpense 30 demo_expense)
       (exec (InsertRevenue 20 demo_revenue)
         (exec (InsertService 10 demo_service) empty_store))"

section \<open>Properties of the configuration\<close>

subsection \<open>\<open>split\<close> and \<open>strip\<close>\<close>

lemma split_from_cur: "split_from sep cur s = (rev cur @ hd (split_from sep [] s)) # tl (split_from sep [] s)"
proof (induction s arbitrary: cur)
  case Nil
  then show ?case by simp
next
  case (Cons c cs)
  show ?case
  proof (cases "c = sep")
    case True
    then show ?thesis by simp
  next
    case False
    have "split_from sep (c # cur) cs = (rev (c # cur) @ hd (split_from sep [] cs)) # tl (split_from sep [] cs)"
      by (rule Cons.IH)
    moreover have "split_from sep [c] cs = (rev [c] @ hd (split_from sep [] cs)) # tl (split_from sep [] cs)"
      by (rule Cons.IH)
    ultimately show ?thesis using False by simp
  qed
qed

lemma split_Nil: "split [] sep = [[]]" by (simp add: split_def)

lemma split_Cons_sep: "split (sep # cs) sep = [] # split cs sep" by (simp add: split_def)

lemma split_Cons_other: "c \<noteq> sep \<Longrightarrow> split (c # cs) sep = (c # hd (split cs sep)) # tl (split cs sep)"
  using split_from_cur [of sep "[c]" cs] by (simp add: split_def)

lemma split_not_Nil: "split s sep \<noteq> []"
proof (cases s)
  case Nil then show ?thesis by (simp add: split_Nil)
next
  case (Cons c cs)
  then show ?thesis by (cases "c = sep") (simp_all add: split_Cons_sep split_Cons_other)
qed

lemma length_split: "length (split s sep) = Suc (count_list s sep)"
proof (induction s)
  case Nil then show ?case by (simp add: split_Nil)
next
  case (Cons c cs)
  then show ?case using split_not_Nil [of cs sep]
    by (cases "c = sep") (simp_all add: split_Cons_sep split_Cons_other)
qed

lemma split_append: "split (a @ sep # b) sep = split a sep @ split b sep"
proof (induction a)
  case Nil then show ?case by (simp add: split_Nil split_Cons_sep)
next
  case (Cons c cs)
  show ?case
  proof (cases "c = sep")
    case True then show ?thesis using Cons by (simp add: split_Cons_sep)
  next
    case False
    then show ?thesis using Cons split_not_Nil [of cs sep]
      by (simp add: split_Cons_other hd_append tl_append split: list.splits)
  qed
qed

lemma join_Cons: "ps \<noteq> [] \<Longrightarrow> join sep (p # ps) = p @ sep # join sep ps"
  by (cases ps) simp_all

lemma join_split: "join sep (split s sep) = s"
proof (induction s)
  case Nil then show ?case by (simp add: split_Nil)
next
  case (Cons c cs)
  show ?case
  proof (cases "c = sep")
    case True then show ?thesis using Cons split_not_Nil [of cs sep] by (simp add: split_Cons_sep join_Cons)
  next
    case False
    obtain p ps where sp: "split cs sep = p # ps" using split_not_Nil [of cs sep] by (cases "split cs sep") auto
    have "join sep ((c # p) # ps) = c # join sep (p # ps)" by (cases ps) simp_all
    then show ?thesis using False Cons sp by (simp add: split_Cons_other)
  qed
qed

lemma split_no_sep: "p \<in> set (split s sep) \<Longrightarrow> sep \<notin> set p"
proof (induction s arbitrary: p)
  case Nil then show ?case by (simp add: split_Nil)
next
  case (Cons c cs)
  show ?case
  proof (cases "c = sep")
    case True then show ?thesis using Cons by (auto simp: split_Cons_sep)
  next
    case False
    obtain q qs where sp: "split cs sep = q # qs" using split_not_Nil [of cs sep] by (cases "split cs sep") auto
    then show ?thesis using False Cons by (auto simp: split_Cons_other)
  qed
qed

lemma rev_dropWhile_takeWhile:
  "rev (dropWhile P (rev xs)) @ rev (takeWhile P (rev xs)) = xs"
proof -
  have "rev (dropWhile P (rev xs)) @ rev (takeWhile P (rev xs))
        = rev (takeWhile P (rev xs) @ dropWhile P (rev xs))"
    by (simp only: rev_append)
  also have "\<dots> = rev (rev xs)" by (simp only: takeWhile_dropWhile_id)
  finally show ?thesis by simp
qed

lemma lstrip_decomp: "s = takeWhile isspace s @ lstrip s"
  by (simp add: lstrip_def)

lemma rstrip_decomp: "s = rstrip s @ rev (takeWhile isspace (rev s))"
  by (simp add: rstrip_def rev_dropWhile_takeWhile)

lemma strip_decomp: "\<exists>l r. s = l @ strip s @ r \<and> (\<forall>c\<in>set l. isspace c) \<and> (\<forall>c\<in>set r. isspace c)"
proof -
  let ?l = "takeWhile isspace s"
  let ?r = "rev (takeWhile isspace (rev (lstrip s)))"
  have "lstrip s = strip s @ ?r" unfolding strip_def by (rule rstrip_decomp)
  then have "s = ?l @ strip s @ ?r" using lstrip_decomp [of s] by simp
  moreover have "\<forall>c\<in>set ?l. isspace c" by (auto dest: set_takeWhileD)
  moreover have "\<forall>c\<in>set ?r. isspace c" by (auto dest: set_takeWhileD)
  ultimately show ?thesis by blast
qed

lemma strip_ends: "strip s = [] \<or> (\<not> isspace (hd (strip s)) \<and> \<not> isspace (last (strip s)))"
proof (cases "strip s = []")
  case True then show ?thesis by simp
next
  case False
  let ?d = "dropWhile isspace (rev (lstrip s))"
  have st: "strip s = rev ?d" by (simp add: strip_def rstrip_def)
  with False have dne: "?d \<noteq> []" by simp
  then have "\<not> isspace (hd ?d)" by (rule hd_dropWhile)
  then have l: "\<not> isspace (last (strip s))" using st dne by (simp add: last_rev)
  have mne: "lstrip s \<noteq> []" using dne by auto
  then have hm: "\<not> isspace (hd (lstrip s))" unfolding lstrip_def by (rule hd_dropWhile)
  have "lstrip s = strip s @ rev (takeWhile isspace (rev (lstrip s)))"
    unfolding strip_def by (rule rstrip_decomp)
  then have "hd (lstrip s) = hd (strip s)" using False by (metis hd_append2)
  with hm l show ?thesis by simp
qed

subsection \<open>\<open>cors_origins\<close>\<close>

text \<open>
  C6. With \<open>allowed_origins = "http://localhost:8080,http://localhost:5173"\<close> the
  property \<open>cors_origins\<close> is exactly the ordered list of the two origins. In general
  the segments it works on are the comma-separated pieces of \<open>allowed_origins\<close>
  (joining them with commas gives the field back, and none holds a comma), the result has
  one entry per segment in the same order, and the entry at each position is the segment
  at that position with whitespace, and only whitespace, removed from both of its ends.
\<close>

theorem cors_origins_splits_and_strips:
  "cors_origins (self\<lparr>allowed_origins := ''http://localhost:8080,http://localhost:5173''\<rparr>)
     = [''http://localhost:8080'', ''http://localhost:5173'']
   \<and> join CHR '','' (split (allowed_origins self) CHR '','') = allowed_origins self
   \<and> (\<forall>p \<in> set (split (allowed_origins self) CHR '',''). CHR '','' \<notin> set p)
   \<and> length (cors_origins self) = length (split (allowed_origins self) CHR '','')
   \<and> (\<forall>i < length (cors_origins self).
         (\<exists>l r. split (allowed_origins self) CHR '','' ! i = l @ cors_origins self ! i @ r
                \<and> (\<forall>c \<in> set l. isspace c) \<and> (\<forall>c \<in> set r. isspace c))
         \<and> (cors_origins self ! i = []
              \<or> (\<not> isspace (hd (cors_origins self ! i))
                  \<and> \<not> isspace (last (cors_origins self ! i)))))"
proof -
  have ex: "cors_origins (self\<lparr>allowed_origins := ''http://localhost:8080,http://localhost:5173''\<rparr>)
     = [''http://localhost:8080'', ''http://localhost:5173'']"
    by (simp add: cors_origins_def split_def strip_def lstrip_def rstrip_def isspace_def)
  have len: "length (cors_origins self) = length (split (allowed_origins self) CHR '','')"
    by (simp add: cors_origins_def)
  have each: "\<forall>i < length (cors_origins self).
         (\<exists>l r. split (allowed_origins self) CHR '','' ! i = l @ cors_origins self ! i @ r
                \<and> (\<forall>c \<in> set l. isspace c) \<and> (\<forall>c \<in> set r. isspace c))
         \<and> (cors_origins self ! i = []
              \<or> (\<not> isspace (hd (cors_origins self ! i))
                  \<and> \<not> isspace (last (cors_origins self ! i))))"
  proof (intro allI impI)
    fix i assume "i < length (cors_origins self)"
    then have "cors_origins self ! i = strip (split (allowed_origins self) CHR '','' ! i)"
      by (simp add: cors_origins_def)
    then show "(\<exists>l r. split (allowed_origins self) CHR '','' ! i = l @ cors_origins self ! i @ r
                \<and> (\<forall>c \<in> set l. isspace c) \<and> (\<forall>c \<in> set r. isspace c))
         \<and> (cors_origins self ! i = []
              \<or> (\<not> isspace (hd (cors_origins self ! i))
                  \<and> \<not> isspace (last (cors_origins self ! i))))"
      using strip_decomp [of "split (allowed_origins self) CHR '','' ! i"]
            strip_ends [of "split (allowed_origins self) CHR '','' ! i"]
      by simp
  qed
  from ex len each show ?thesis
    using join_split [of "CHR '',''" "allowed_origins self"]
          split_no_sep [of _ "allowed_origins self" "CHR '',''"]
    by blast
qed

text \<open>
  The theorem at the field \<open>" a ,b"\<close>: position 0 is in range, and it holds the segment
  \<open>" a "\<close> with its blanks removed.
\<close>

theorem cors_origins_splits_and_strips_witness:
  "(0::nat) < length (cors_origins (Settings_defaults\<lparr>allowed_origins := '' a ,b''\<rparr>))
   \<and> cors_origins (Settings_defaults\<lparr>allowed_origins := '' a ,b''\<rparr>) ! 0 = ''a''
   \<and> (\<exists>l r. split '' a ,b'' CHR '','' ! 0
              = l @ cors_origins (Settings_defaults\<lparr>allowed_origins := '' a ,b''\<rparr>) ! 0 @ r
            \<and> (\<forall>c \<in> set l. isspace c) \<and> (\<forall>c \<in> set r. isspace c))"
proof -
  let ?s = "Settings_defaults\<lparr>allowed_origins := '' a ,b''\<rparr>"
  have len: "(0::nat) < length (cors_origins ?s)"
    by (simp add: cors_origins_def split_def)
  have val: "cors_origins ?s ! 0 = ''a''"
    by (simp add: cors_origins_def split_def strip_def lstrip_def rstrip_def isspace_def)
  have f: "allowed_origins ?s = '' a ,b''" by simp
  from cors_origins_splits_and_strips [of ?s]
  have "\<forall>i < length (cors_origins ?s).
         (\<exists>l r. split (allowed_origins ?s) CHR '','' ! i = l @ cors_origins ?s ! i @ r
                \<and> (\<forall>c \<in> set l. isspace c) \<and> (\<forall>c \<in> set r. isspace c))
         \<and> (cors_origins ?s ! i = []
              \<or> (\<not> isspace (hd (cors_origins ?s ! i))
                  \<and> \<not> isspace (last (cors_origins ?s ! i))))"
    by blast
  with len have "\<exists>l r. split (allowed_origins ?s) CHR '','' ! 0 = l @ cors_origins ?s ! 0 @ r
                \<and> (\<forall>c \<in> set l. isspace c) \<and> (\<forall>c \<in> set r. isspace c)"
    by blast
  with len val f show ?thesis by simp
qed

text \<open>
  C10. \<open>cors_origins\<close> has exactly one entry per comma-separated segment, that is one
  more than the number of commas, and keeps the empty segments: the empty field gives the
  one-element list \<open>[""]\<close>, a trailing comma adds a final empty entry, and a doubled
  comma gives an empty entry between the entries of the text before and after it.
\<close>

theorem cors_origins_keeps_empty_segments:
  "length (cors_origins self) = Suc (count_list (allowed_origins self) CHR '','')
   \<and> cors_origins (self\<lparr>allowed_origins := ''''\<rparr>) = ['''']
   \<and> cors_origins (self\<lparr>allowed_origins := a @ '',''\<rparr>)
       = cors_origins (self\<lparr>allowed_origins := a\<rparr>) @ ['''']
   \<and> cors_origins (self\<lparr>allowed_origins := a @ '',,'' @ b\<rparr>)
       = cors_origins (self\<lparr>allowed_origins := a\<rparr>) @ [''''] @
         cors_origins (self\<lparr>allowed_origins := b\<rparr>)"
proof -
  have strip_Nil: "strip [] = []"
    by (simp add: strip_def lstrip_def rstrip_def)
  have 1: "length (cors_origins self) = Suc (count_list (allowed_origins self) CHR '','')"
    by (simp add: cors_origins_def length_split)
  have 2: "cors_origins (self\<lparr>allowed_origins := ''''\<rparr>) = ['''']"
    by (simp add: cors_origins_def split_Nil strip_Nil)
  have 3: "cors_origins (self\<lparr>allowed_origins := a @ '',''\<rparr>)
       = cors_origins (self\<lparr>allowed_origins := a\<rparr>) @ ['''']"
    using split_append [of a "CHR '',''" "[]"]
    by (simp add: cors_origins_def split_Nil strip_Nil)
  have "split (a @ CHR '','' # (CHR '','' # b)) CHR '',''
        = split a CHR '','' @ [] # split b CHR '',''"
    by (simp only: split_append split_Cons_sep)
  then have 4: "cors_origins (self\<lparr>allowed_origins := a @ '',,'' @ b\<rparr>)
       = cors_origins (self\<lparr>allowed_origins := a\<rparr>) @ [''''] @
         cors_origins (self\<lparr>allowed_origins := b\<rparr>)"
    by (simp add: cors_origins_def strip_Nil)
  from 1 2 3 4 show ?thesis by blast
qed

subsection \<open>\<open>get_settings\<close>\<close>

lemma get_settings_hit:
  "cached p = Some r \<Longrightarrow> get_settings pb pn e p = (Inr r, p\<lparr>hits := Suc (hits p)\<rparr>)"
  by (simp add: get_settings_def)

lemma get_settings_calls_hit:
  "cached p = Some r \<Longrightarrow>
   fst (get_settings_calls pb pn es p) = replicate (length es) (Inr r)
   \<and> snd (get_settings_calls pb pn es p) = p\<lparr>hits := hits p + length es\<rparr>"
proof (induction es arbitrary: p)
  case Nil
  then show ?case by simp
next
  case (Cons e es)
  let ?p = "p\<lparr>hits := Suc (hits p)\<rparr>"
  have c: "cached ?p = Some r" using Cons.prems by simp
  from Cons.IH [OF c] show ?case
    using Cons.prems by (cases "get_settings_calls pb pn es ?p") (simp add: get_settings_hit)
qed

text \<open>
  C7. In a fresh process whose first call of \<open>get_settings\<close> returns an instance,
  every later call returns that same instance, whatever the environment has become by
  then: the instances constructed stay the one built by the first call, and the miss
  counter, which counts the constructions of \<open>Settings\<close>, stays at one.
\<close>

theorem get_settings_returns_cached_instance:
  assumes first: "get_settings pb pn e0 process_start = (Inr r, p1)"
  shows "fst (get_settings_calls pb pn es p1) = replicate (length es) (Inr r)
     \<and> objects (snd (get_settings_calls pb pn es p1)) = objects p1
     \<and> misses (snd (get_settings_calls pb pn es p1)) = 1
     \<and> cached (snd (get_settings_calls pb pn es p1)) = Some r
     \<and> (\<exists>s. Settings_init pb pn e0 = Inr s \<and> objects p1 = [s] \<and> r = 0)"
proof -
  from first obtain s where s: "Settings_init pb pn e0 = Inr s"
    and p1: "p1 = process_start\<lparr>objects := [s], cached := Some 0, misses := Suc 0\<rparr>"
    and r: "r = 0"
    by (auto simp: get_settings_def process_start_def split: sum.splits)
  have c: "cached p1 = Some r" using p1 r by simp
  from get_settings_calls_hit [OF c, of pb pn es] s p1 r show ?thesis
    by (simp add: process_start_def)
qed

text \<open>
  The theorem in a process with an empty environment: the first call builds the defaults,
  and two later calls, the first of them under a \<open>debug\<close> value that would not
  parse, return the instance of the first call.
\<close>

theorem get_settings_returns_cached_instance_witness:
  "get_settings (\<lambda>_. None) (\<lambda>_. None) (\<lambda>_. None) process_start
     = (Inr 0, process_start\<lparr>objects := [Settings_defaults], cached := Some 0, misses := 1\<rparr>)
   \<and> fst (get_settings_calls (\<lambda>_. None) (\<lambda>_. None) [[''debug'' \<mapsto> ''x''], Map.empty]
           (process_start\<lparr>objects := [Settings_defaults], cached := Some 0, misses := 1\<rparr>))
       = [Inr 0, Inr 0]"
proof -
  have h: "get_settings (\<lambda>_. None) (\<lambda>_. None) (\<lambda>_. None) process_start
     = (Inr 0, process_start\<lparr>objects := [Settings_defaults], cached := Some 0, misses := 1\<rparr>)"
    by (simp add: get_settings_def Settings_init_def parsed_field_def str_field_def
        process_start_def Settings_defaults_def)
  from get_settings_returns_cached_instance [OF h, of "[[''debug'' \<mapsto> ''x''], Map.empty]"] h
  show ?thesis by simp
qed

section \<open>Properties of the ledger schema\<close>

subsection \<open>Tables as lists\<close>

lemma fold_max_ge: "(a::int) \<le> fold max ks a"
  by (induction ks arbitrary: a) (auto intro: order_trans [OF max.cobounded2])

lemma fold_max_mem: "(k::int) \<in> set ks \<Longrightarrow> k \<le> fold max ks a"
proof (induction ks arbitrary: a)
  case Nil then show ?case by simp
next
  case (Cons x xs)
  show ?case
  proof (cases "k = x")
    case True
    have "max x a \<le> fold max xs (max x a)" by (rule fold_max_ge)
    then show ?thesis using True by simp
  next
    case False
    then show ?thesis using Cons by simp
  qed
qed

lemma next_id_fresh: "next_id ks \<notin> set ks"
proof
  assume "next_id ks \<in> set ks"
  then have "next_id ks \<le> fold max ks 0" by (rule fold_max_mem)
  then show False by (simp add: next_id_def)
qed

lemma lookup_mem: "lookup t k = Some r \<Longrightarrow> (k, r) \<in> set t"
  by (simp add: lookup_def map_of_SomeD)


lemma mem_lookup: "distinct (ids t) \<Longrightarrow> (k, r) \<in> set t \<Longrightarrow> lookup t k = Some r"
  by (simp add: lookup_def ids_def)

lemma ids_replace_row: "ids (replace_row k r t) = ids t"
  by (induction t) (auto simp: ids_def replace_row_def)

lemma set_replace_row: "set (replace_row k r t) \<subseteq> insert (k, r) (set t)"
  by (induction t) (auto simp: replace_row_def)

lemma replace_row_absent: "k \<notin> set (ids t) \<Longrightarrow> replace_row k r t = t"
  by (induction t) (auto simp: replace_row_def ids_def)

lemma delete_row_absent: "k \<notin> set (ids t) \<Longrightarrow> delete_row k t = t"
  by (induction t) (auto simp: delete_row_def ids_def)

lemma set_delete_row: "set (delete_row k t) = {p \<in> set t. fst p \<noteq> k}"
  by (auto simp: delete_row_def)

lemma ids_delete_row: "set (ids (delete_row k t)) = set (ids t) - {k}"
  by (auto simp: delete_row_def ids_def)

lemma distinct_ids_delete_row: "distinct (ids t) \<Longrightarrow> distinct (ids (delete_row k t))"
  by (simp add: delete_row_def ids_def distinct_map_filter)

lemma distinct_map_delete_row: "distinct (map f t) \<Longrightarrow> distinct (map f (delete_row k t))"
  by (simp add: delete_row_def distinct_map_filter)



lemma distinct_map_replace_row:
  "distinct (ids t) \<Longrightarrow> distinct (map (f \<circ> snd) t) \<Longrightarrow>
   f r \<notin> set (map (f \<circ> snd) (delete_row k t)) \<Longrightarrow>
   distinct (map (f \<circ> snd) (replace_row k r t))"
proof (induction t)
  case Nil
  then show ?case by (simp add: replace_row_def)
next
  case (Cons p t)
  obtain i x where p: "p = (i, x)" by (cases p)
  show ?case
  proof (cases "i = k")
    case True
    then have absent: "k \<notin> set (ids t)" using Cons.prems(1) p by (simp add: ids_def)
    have "replace_row k r (p # t) = (k, r) # t"
      using True p replace_row_absent [OF absent, of r] by (simp add: replace_row_def)
    moreover have "delete_row k (p # t) = t"
      using True p delete_row_absent [OF absent] by (simp add: delete_row_def)
    ultimately show ?thesis using Cons.prems by (simp add: comp_def)
  next
    case False
    have d: "delete_row k (p # t) = p # delete_row k t"
      using False p by (simp add: delete_row_def)
    have rr: "replace_row k r (p # t) = p # replace_row k r t"
      using False p by (simp add: replace_row_def)
    have "distinct (ids t)" using Cons.prems(1) by (simp add: ids_def)
    moreover have "distinct (map (f \<circ> snd) t)" using Cons.prems(2) by (simp add: comp_def)
    moreover have "f r \<notin> set (map (f \<circ> snd) (delete_row k t))"
      using Cons.prems(3) d by (simp add: comp_def)
    ultimately have ih: "distinct (map (f \<circ> snd) (replace_row k r t))"
      by (rule Cons.IH)
    have "f x \<noteq> f r" using Cons.prems(3) d p by (auto simp: comp_def)
    moreover have "f x \<notin> set (map (f \<circ> snd) t)" using Cons.prems(2) p by (simp add: comp_def)
    ultimately have "f x \<notin> set (map (f \<circ> snd) (replace_row k r t))"
      using set_replace_row [of k r t] by (auto simp: comp_def)
    then show ?thesis using ih rr p by (simp add: comp_def)
  qed
qed

subsection \<open>What the declared columns demand\<close>

lemmas service_columns =
  Service_name_def Service_description_def Service_icon_def Service_color_def
  Service_is_active_def Service_daily_target_def Service_monthly_target_def
  Service_yearly_target_def Service_created_at_def Service_updated_at_def

lemmas revenue_columns =
  Revenue_service_id_def Revenue_amount_def Revenue_date_def Revenue_description_def
  Revenue_payment_method_def Revenue_reference_def Revenue_created_by_def
  Revenue_created_at_def Revenue_updated_at_def

lemmas expense_columns =
  Expense_service_id_def Expense_amount_def Expense_date_def Expense_category_def
  Expense_description_def Expense_vendor_def Expense_is_recurring_def Expense_created_by_def
  Expense_created_at_def Expense_updated_at_def

lemmas column_checks =
  mapped_column_def is_nullable_def not_null_ok_def unique_ok_def foreign_key_ok_def
  table_ids_def

lemma service_not_null_iff:
  "service_not_null r \<longleftrightarrow>
     service.name r \<noteq> None \<and> service.icon r \<noteq> None \<and> service.color r \<noteq> None
     \<and> service.is_active r \<noteq> None \<and> service.daily_target r \<noteq> None
     \<and> service.monthly_target r \<noteq> None \<and> service.yearly_target r \<noteq> None
     \<and> service.created_at r \<noteq> None \<and> service.updated_at r \<noteq> None"
  by (simp add: service_not_null_def service_columns column_checks)

lemma service_unique_iff:
  "service_unique others r \<longleftrightarrow>
     service.name r = None \<or> service.name r \<notin> set (map (service.name \<circ> snd) others)"
  by (simp add: service_unique_def service_columns column_checks)

lemma revenue_not_null_iff:
  "revenue_not_null r \<longleftrightarrow>
     revenue.service_id r \<noteq> None \<and> revenue.amount r \<noteq> None \<and> revenue.date r \<noteq> None
     \<and> revenue.payment_method r \<noteq> None
     \<and> revenue.created_at r \<noteq> None \<and> revenue.updated_at r \<noteq> None"
  by (simp add: revenue_not_null_def revenue_columns column_checks)

lemma revenue_unique_iff: "revenue_unique others r"
  by (simp add: revenue_unique_def revenue_columns column_checks)

lemma revenue_foreign_keys_iff:
  "revenue_foreign_keys st r \<longleftrightarrow>
     (\<forall>k. revenue.service_id r = Some k \<longrightarrow> k \<in> set (ids (services st)))
     \<and> (\<forall>u. revenue.created_by r = Some u \<longrightarrow> u \<in> set (users st))"
  by (simp add: revenue_foreign_keys_def revenue_columns column_checks split: option.splits)

lemma expense_not_null_iff:
  "expense_not_null r \<longleftrightarrow>
     expense.amount r \<noteq> None \<and> expense.date r \<noteq> None \<and> expense.category r \<noteq> None
     \<and> expense.is_recurring r \<noteq> None
     \<and> expense.created_at r \<noteq> None \<and> expense.updated_at r \<noteq> None"
  by (simp add: expense_not_null_def expense_columns column_checks)

lemma expense_unique_iff: "expense_unique others r"
  by (simp add: expense_unique_def expense_columns column_checks)

lemma expense_foreign_keys_iff:
  "expense_foreign_keys st r \<longleftrightarrow>
     (\<forall>k. expense.service_id r = Some k \<longrightarrow> k \<in> set (ids (services st)))
     \<and> (\<forall>u. expense.created_by r = Some u \<longrightarrow> u \<in> set (users st))"
  by (simp add: expense_foreign_keys_def expense_columns column_checks split: option.splits)

subsection \<open>Every operation keeps the store's integrity\<close>

lemma revenue_foreign_keys_mono:
  "set (ids (services st)) \<subseteq> set (ids (services st')) \<Longrightarrow> set (users st) \<subseteq> set (users st')
   \<Longrightarrow> revenue_foreign_keys st r \<Longrightarrow> revenue_foreign_keys st' r"
  by (auto simp: revenue_foreign_keys_iff split: option.splits)

lemma expense_foreign_keys_mono:
  "set (ids (services st)) \<subseteq> set (ids (services st')) \<Longrightarrow> set (users st) \<subseteq> set (users st')
   \<Longrightarrow> expense_foreign_keys st r \<Longrightarrow> expense_foreign_keys st' r"
  by (auto simp: expense_foreign_keys_iff split: option.splits)

lemma services_ok_frame: "services st' = services st \<Longrightarrow> services_ok st \<Longrightarrow> services_ok st'"
  by (simp add: services_ok_def)

lemma revenues_ok_frame:
  "revenues st' = revenues st \<Longrightarrow> set (ids (services st)) \<subseteq> set (ids (services st'))
   \<Longrightarrow> set (users st) \<subseteq> set (users st') \<Longrightarrow> revenues_ok st \<Longrightarrow> revenues_ok st'"
  by (auto simp: revenues_ok_def list_all_iff intro: revenue_foreign_keys_mono)

lemma expenses_ok_frame:
  "expenses st' = expenses st \<Longrightarrow> set (ids (services st)) \<subseteq> set (ids (services st'))
   \<Longrightarrow> set (users st) \<subseteq> set (users st') \<Longrightarrow> expenses_ok st \<Longrightarrow> expenses_ok st'"
  by (auto simp: expenses_ok_def list_all_iff intro: expense_foreign_keys_mono)

lemma integrity_empty: "integrity empty_store"
  by (simp add: integrity_def services_ok_def revenues_ok_def expenses_ok_def empty_store_def
      ids_def)

lemma insert_user_result:
  "insert_user st = (st\<lparr>users := users st @ [next_id (users st)]\<rparr>, Inr (next_id (users st)))"
  by (simp add: insert_user_def Let_def)

lemma integrity_insert_user: "integrity st \<Longrightarrow> integrity (fst (insert_user st))"
proof -
  assume i: "integrity st"
  let ?st = "st\<lparr>users := users st @ [next_id (users st)]\<rparr>"
  have "services_ok ?st" using i by (simp add: integrity_def services_ok_def)
  moreover have "revenues_ok ?st" using i
    by (rule_tac revenues_ok_frame [of _ st]) (auto simp: integrity_def)
  moreover have "expenses_ok ?st" using i
    by (rule_tac expenses_ok_frame [of _ st]) (auto simp: integrity_def)
  ultimately show ?thesis unfolding insert_user_result fst_conv integrity_def by blast
qed

lemma insert_service_NotNull:
  "\<not> service_not_null (service_defaults now v) \<Longrightarrow>
   insert_service now v st = (st, Inl (IntegrityError NotNull))"
  by (simp add: insert_service_def Let_def)

lemma insert_service_Unique:
  "service_not_null (service_defaults now v) \<Longrightarrow>
   \<not> service_unique (services st) (service_defaults now v) \<Longrightarrow>
   insert_service now v st = (st, Inl (IntegrityError Unique))"
  by (simp add: insert_service_def Let_def)

lemma insert_service_ok:
  "service_not_null (service_defaults now v) \<Longrightarrow>
   service_unique (services st) (service_defaults now v) \<Longrightarrow>
   insert_service now v st =
     (st\<lparr>services := services st @ [(next_id (ids (services st)), service_defaults now v)]\<rparr>,
      Inr (next_id (ids (services st)), service_defaults now v))"
  by (simp add: insert_service_def Let_def)

lemma services_ok_append:
  assumes "services_ok st" and "service_not_null row" and "service_unique (services st) row"
  shows "services_ok (st\<lparr>services := services st @ [(next_id (ids (services st)), row)]\<rparr>)"
proof -
  have fresh: "next_id (ids (services st)) \<notin> set (ids (services st))" by (rule next_id_fresh)
  have "service.name row \<noteq> None" using assms(2) by (simp add: service_not_null_iff)
  then have "service.name row \<notin> set (map (service.name \<circ> snd) (services st))"
    using assms(3) by (auto simp: service_unique_iff)
  then show ?thesis using assms(1,2) fresh
    by (simp add: services_ok_def ids_def comp_def)
qed

lemma integrity_insert_service:
  assumes "integrity st" shows "integrity (fst (insert_service now v st))"
proof (cases "service_not_null (service_defaults now v)
              \<and> service_unique (services st) (service_defaults now v)")
  case False
  show ?thesis
  proof (cases "service_not_null (service_defaults now v)")
    case True
    with False have "\<not> service_unique (services st) (service_defaults now v)" by simp
    with True show ?thesis using assms by (simp add: insert_service_Unique)
  next
    case False
    then show ?thesis using assms by (simp add: insert_service_NotNull)
  qed
next
  case True
  let ?st = "st\<lparr>services := services st @
                [(next_id (ids (services st)), service_defaults now v)]\<rparr>"
  have eq: "fst (insert_service now v st) = ?st" using True by (simp add: insert_service_ok)
  have "services_ok ?st" using assms True services_ok_append by (simp add: integrity_def)
  moreover have "revenues_ok ?st" using assms
    by (rule_tac revenues_ok_frame [of _ st]) (auto simp: integrity_def ids_def)
  moreover have "expenses_ok ?st" using assms
    by (rule_tac expenses_ok_frame [of _ st]) (auto simp: integrity_def ids_def)
  ultimately show ?thesis unfolding eq integrity_def by blast
qed

lemma update_service_NotFound:
  "lookup (services st) k = None \<Longrightarrow> update_service now k chg st = (st, Inl NotFound)"
  by (simp add: update_service_def)

lemma update_service_NotNull:
  "lookup (services st) k = Some old \<Longrightarrow> \<not> service_not_null (service_assign now chg old) \<Longrightarrow>
   update_service now k chg st = (st, Inl (IntegrityError NotNull))"
  by (simp add: update_service_def Let_def)

lemma update_service_Unique:
  "lookup (services st) k = Some old \<Longrightarrow> service_not_null (service_assign now chg old) \<Longrightarrow>
   \<not> service_unique (delete_row k (services st)) (service_assign now chg old) \<Longrightarrow>
   update_service now k chg st = (st, Inl (IntegrityError Unique))"
  by (simp add: update_service_def Let_def)

lemma update_service_ok:
  "lookup (services st) k = Some old \<Longrightarrow> service_not_null (service_assign now chg old) \<Longrightarrow>
   service_unique (delete_row k (services st)) (service_assign now chg old) \<Longrightarrow>
   update_service now k chg st =
     (st\<lparr>services := replace_row k (service_assign now chg old) (services st)\<rparr>,
      Inr (k, service_assign now chg old))"
  by (simp add: update_service_def Let_def)

lemma services_ok_replace:
  assumes "services_ok st" and "service_not_null row"
    and "service_unique (delete_row k (services st)) row"
  shows "services_ok (st\<lparr>services := replace_row k row (services st)\<rparr>)"
proof -
  have "service.name row \<noteq> None" using assms(2) by (simp add: service_not_null_iff)
  then have "service.name row \<notin> set (map (service.name \<circ> snd) (delete_row k (services st)))"
    using assms(3) by (auto simp: service_unique_iff)
  then have "distinct (map (service.name \<circ> snd) (replace_row k row (services st)))"
    using assms(1) by (intro distinct_map_replace_row) (simp_all add: services_ok_def)
  moreover have "list_all (\<lambda>(k, r). service_not_null r) (replace_row k row (services st))"
    using assms(1,2) set_replace_row [of k row "services st"]
    by (auto simp: services_ok_def list_all_iff)
  ultimately show ?thesis using assms(1) by (simp add: services_ok_def ids_replace_row)
qed

lemma integrity_update_service:
  assumes "integrity st" shows "integrity (fst (update_service now k chg st))"
proof (cases "lookup (services st) k")
  case None
  then show ?thesis using assms by (simp add: update_service_NotFound)
next
  case (Some old)
  show ?thesis
  proof (cases "service_not_null (service_assign now chg old)
                \<and> service_unique (delete_row k (services st)) (service_assign now chg old)")
    case False
    show ?thesis
    proof (cases "service_not_null (service_assign now chg old)")
      case True
      with False have "\<not> service_unique (delete_row k (services st)) (service_assign now chg old)"
        by simp
      with True Some show ?thesis using assms by (simp add: update_service_Unique)
    next
      case False
      with Some show ?thesis using assms by (simp add: update_service_NotNull)
    qed
  next
    case True
    let ?st = "st\<lparr>services := replace_row k (service_assign now chg old) (services st)\<rparr>"
    have eq: "fst (update_service now k chg st) = ?st"
      using True Some by (simp add: update_service_ok)
    have "services_ok ?st" using assms True services_ok_replace by (simp add: integrity_def)
    moreover have "revenues_ok ?st" using assms
      by (rule_tac revenues_ok_frame [of _ st]) (auto simp: integrity_def ids_replace_row)
    moreover have "expenses_ok ?st" using assms
      by (rule_tac expenses_ok_frame [of _ st]) (auto simp: integrity_def ids_replace_row)
    ultimately show ?thesis unfolding eq integrity_def by blast
  qed
qed

lemma revenue_foreign_keys_revenues:
  "revenue_foreign_keys (st\<lparr>revenues := x\<rparr>) r = revenue_foreign_keys st r"
  by (simp add: revenue_foreign_keys_iff)

lemma revenue_foreign_keys_expenses:
  "revenue_foreign_keys (st\<lparr>expenses := x\<rparr>) r = revenue_foreign_keys st r"
  by (simp add: revenue_foreign_keys_iff)

lemma expense_foreign_keys_revenues:
  "expense_foreign_keys (st\<lparr>revenues := x\<rparr>) r = expense_foreign_keys st r"
  by (simp add: expense_foreign_keys_iff)

lemma expense_foreign_keys_expenses:
  "expense_foreign_keys (st\<lparr>expenses := x\<rparr>) r = expense_foreign_keys st r"
  by (simp add: expense_foreign_keys_iff)

lemma insert_revenue_NotNull:
  "\<not> revenue_not_null (revenue_defaults now v) \<Longrightarrow>
   insert_revenue now v st = (st, Inl (IntegrityError NotNull))"
  by (simp add: insert_revenue_def Let_def)

lemma insert_revenue_ForeignKey:
  "revenue_not_null (revenue_defaults now v) \<Longrightarrow>
   \<not> revenue_foreign_keys st (revenue_defaults now v) \<Longrightarrow>
   insert_revenue now v st = (st, Inl (IntegrityError ForeignKey))"
  by (simp add: insert_revenue_def Let_def revenue_unique_iff)

lemma insert_revenue_ok:
  "revenue_not_null (revenue_defaults now v) \<Longrightarrow>
   revenue_foreign_keys st (revenue_defaults now v) \<Longrightarrow>
   insert_revenue now v st =
     (st\<lparr>revenues := revenues st @ [(next_id (ids (revenues st)), revenue_defaults now v)]\<rparr>,
      Inr (next_id (ids (revenues st)), revenue_defaults now v))"
  by (simp add: insert_revenue_def Let_def revenue_unique_iff)

lemma revenues_ok_append:
  assumes "revenues_ok st" and "revenue_not_null row" and "revenue_foreign_keys st row"
  shows "revenues_ok (st\<lparr>revenues := revenues st @ [(next_id (ids (revenues st)), row)]\<rparr>)"
proof -
  have fresh: "next_id (ids (revenues st)) \<notin> set (ids (revenues st))" by (rule next_id_fresh)
  show ?thesis using assms fresh
    by (simp add: revenues_ok_def ids_def revenue_foreign_keys_revenues)
qed

lemma integrity_insert_revenue:
  assumes "integrity st" shows "integrity (fst (insert_revenue now v st))"
proof (cases "revenue_not_null (revenue_defaults now v)
              \<and> revenue_foreign_keys st (revenue_defaults now v)")
  case False
  show ?thesis
  proof (cases "revenue_not_null (revenue_defaults now v)")
    case True
    with False have "\<not> revenue_foreign_keys st (revenue_defaults now v)" by simp
    with True show ?thesis using assms by (simp add: insert_revenue_ForeignKey)
  next
    case False
    then show ?thesis using assms by (simp add: insert_revenue_NotNull)
  qed
next
  case True
  let ?st = "st\<lparr>revenues := revenues st @
                [(next_id (ids (revenues st)), revenue_defaults now v)]\<rparr>"
  have eq: "fst (insert_revenue now v st) = ?st" using True by (simp add: insert_revenue_ok)
  have "revenues_ok ?st" using assms True revenues_ok_append by (simp add: integrity_def)
  moreover have "services_ok ?st" using assms by (simp add: integrity_def services_ok_def)
  moreover have "expenses_ok ?st" using assms
    by (rule_tac expenses_ok_frame [of _ st]) (auto simp: integrity_def)
  ultimately show ?thesis unfolding eq integrity_def by blast
qed

lemma update_revenue_NotFound:
  "lookup (revenues st) k = None \<Longrightarrow> update_revenue now k chg st = (st, Inl NotFound)"
  by (simp add: update_revenue_def)

lemma update_revenue_NotNull:
  "lookup (revenues st) k = Some old \<Longrightarrow> \<not> revenue_not_null (revenue_assign now chg old) \<Longrightarrow>
   update_revenue now k chg st = (st, Inl (IntegrityError NotNull))"
  by (simp add: update_revenue_def Let_def)

lemma update_revenue_ForeignKey:
  "lookup (revenues st) k = Some old \<Longrightarrow> revenue_not_null (revenue_assign now chg old) \<Longrightarrow>
   \<not> revenue_foreign_keys st (revenue_assign now chg old) \<Longrightarrow>
   update_revenue now k chg st = (st, Inl (IntegrityError ForeignKey))"
  by (simp add: update_revenue_def Let_def revenue_unique_iff)

lemma update_revenue_ok:
  "lookup (revenues st) k = Some old \<Longrightarrow> revenue_not_null (revenue_assign now chg old) \<Longrightarrow>
   revenue_foreign_keys st (revenue_assign now chg old) \<Longrightarrow>
   update_revenue now k chg st =
     (st\<lparr>revenues := replace_row k (revenue_assign now chg old) (revenues st)\<rparr>,
      Inr (k, revenue_assign now chg old))"
  by (simp add: update_revenue_def Let_def revenue_unique_iff)

lemma revenues_ok_replace:
  assumes "revenues_ok st" and "revenue_not_null row" and "revenue_foreign_keys st row"
  shows "revenues_ok (st\<lparr>revenues := replace_row k row (revenues st)\<rparr>)"
proof -
  have "list_all (\<lambda>(k, r). revenue_not_null r \<and> revenue_foreign_keys st r)
          (replace_row k row (revenues st))"
    using assms set_replace_row [of k row "revenues st"]
    by (auto simp: revenues_ok_def list_all_iff)
  then show ?thesis using assms(1) by (simp add: revenues_ok_def ids_replace_row revenue_foreign_keys_revenues)
qed

lemma integrity_update_revenue:
  assumes "integrity st" shows "integrity (fst (update_revenue now k chg st))"
proof (cases "lookup (revenues st) k")
  case None
  then show ?thesis using assms by (simp add: update_revenue_NotFound)
next
  case (Some old)
  show ?thesis
  proof (cases "revenue_not_null (revenue_assign now chg old)
                \<and> revenue_foreign_keys st (revenue_assign now chg old)")
    case False
    show ?thesis
    proof (cases "revenue_not_null (revenue_assign now chg old)")
      case True
      with False have "\<not> revenue_foreign_keys st (revenue_assign now chg old)" by simp
      with True Some show ?thesis using assms by (simp add: update_revenue_ForeignKey)
    next
      case False
      with Some show ?thesis using assms by (simp add: update_revenue_NotNull)
    qed
  next
    case True
    let ?st = "st\<lparr>revenues := replace_row k (revenue_assign now chg old) (revenues st)\<rparr>"
    have eq: "fst (update_revenue now k chg st) = ?st"
      using True Some by (simp add: update_revenue_ok)
    have "revenues_ok ?st" using assms True revenues_ok_replace by (simp add: integrity_def)
    moreover have "services_ok ?st" using assms by (simp add: integrity_def services_ok_def)
    moreover have "expenses_ok ?st" using assms
      by (rule_tac expenses_ok_frame [of _ st]) (auto simp: integrity_def)
    ultimately show ?thesis unfolding eq integrity_def by blast
  qed
qed

lemma integrity_delete_revenue:
  assumes "integrity st" shows "integrity (fst (delete_revenue k st))"
proof (cases "lookup (revenues st) k")
  case None
  then show ?thesis using assms by (simp add: delete_revenue_def)
next
  case (Some old)
  let ?st = "st\<lparr>revenues := delete_row k (revenues st)\<rparr>"
  have eq: "fst (delete_revenue k st) = ?st" using Some by (simp add: delete_revenue_def)
  have "revenues_ok ?st" using assms
    by (auto simp: integrity_def revenues_ok_def revenue_foreign_keys_revenues
        distinct_ids_delete_row list_all_iff set_delete_row)
  moreover have "services_ok ?st" using assms by (simp add: integrity_def services_ok_def)
  moreover have "expenses_ok ?st" using assms
    by (rule_tac expenses_ok_frame [of _ st]) (auto simp: integrity_def)
  ultimately show ?thesis unfolding eq integrity_def by blast
qed

lemma insert_expense_NotNull:
  "\<not> expense_not_null (expense_defaults now v) \<Longrightarrow>
   insert_expense now v st = (st, Inl (IntegrityError NotNull))"
  by (simp add: insert_expense_def Let_def)

lemma insert_expense_ForeignKey:
  "expense_not_null (expense_defaults now v) \<Longrightarrow>
   \<not> expense_foreign_keys st (expense_defaults now v) \<Longrightarrow>
   insert_expense now v st = (st, Inl (IntegrityError ForeignKey))"
  by (simp add: insert_expense_def Let_def expense_unique_iff)

lemma insert_expense_ok:
  "expense_not_null (expense_defaults now v) \<Longrightarrow>
   expense_foreign_keys st (expense_defaults now v) \<Longrightarrow>
   insert_expense now v st =
     (st\<lparr>expenses := expenses st @ [(next_id (ids (expenses st)), expense_defaults now v)]\<rparr>,
      Inr (next_id (ids (expenses st)), expense_defaults now v))"
  by (simp add: insert_expense_def Let_def expense_unique_iff)

lemma expenses_ok_append:
  assumes "expenses_ok st" and "expense_not_null row" and "expense_foreign_keys st row"
  shows "expenses_ok (st\<lparr>expenses := expenses st @ [(next_id (ids (expenses st)), row)]\<rparr>)"
proof -
  have fresh: "next_id (ids (expenses st)) \<notin> set (ids (expenses st))" by (rule next_id_fresh)
  show ?thesis using assms fresh
    by (simp add: expenses_ok_def ids_def expense_foreign_keys_expenses)
qed

lemma integrity_insert_expense:
  assumes "integrity st" shows "integrity (fst (insert_expense now v st))"
proof (cases "expense_not_null (expense_defaults now v)
              \<and> expense_foreign_keys st (expense_defaults now v)")
  case False
  show ?thesis
  proof (cases "expense_not_null (expense_defaults now v)")
    case True
    with False have "\<not> expense_foreign_keys st (expense_defaults now v)" by simp
    with True show ?thesis using assms by (simp add: insert_expense_ForeignKey)
  next
    case False
    then show ?thesis using assms by (simp add: insert_expense_NotNull)
  qed
next
  case True
  let ?st = "st\<lparr>expenses := expenses st @
                [(next_id (ids (expenses st)), expense_defaults now v)]\<rparr>"
  have eq: "fst (insert_expense now v st) = ?st" using True by (simp add: insert_expense_ok)
  have "expenses_ok ?st" using assms True expenses_ok_append by (simp add: integrity_def)
  moreover have "services_ok ?st" using assms by (simp add: integrity_def services_ok_def)
  moreover have "revenues_ok ?st" using assms
    by (rule_tac revenues_ok_frame [of _ st]) (auto simp: integrity_def)
  ultimately show ?thesis unfolding eq integrity_def by blast
qed

lemma update_expense_NotFound:
  "lookup (expenses st) k = None \<Longrightarrow> update_expense now k chg st = (st, Inl NotFound)"
  by (simp add: update_expense_def)

lemma update_expense_NotNull:
  "lookup (expenses st) k = Some old \<Longrightarrow> \<not> expense_not_null (expense_assign now chg old) \<Longrightarrow>
   update_expense now k chg st = (st, Inl (IntegrityError NotNull))"
  by (simp add: update_expense_def Let_def)

lemma update_expense_ForeignKey:
  "lookup (expenses st) k = Some old \<Longrightarrow> expense_not_null (expense_assign now chg old) \<Longrightarrow>
   \<not> expense_foreign_keys st (expense_assign now chg old) \<Longrightarrow>
   update_expense now k chg st = (st, Inl (IntegrityError ForeignKey))"
  by (simp add: update_expense_def Let_def expense_unique_iff)

lemma update_expense_ok:
  "lookup (expenses st) k = Some old \<Longrightarrow> expense_not_null (expense_assign now chg old) \<Longrightarrow>
   expense_foreign_keys st (expense_assign now chg old) \<Longrightarrow>
   update_expense now k chg st =
     (st\<lparr>expenses := replace_row k (expense_assign now chg old) (expenses st)\<rparr>,
      Inr (k, expense_assign now chg old))"
  by (simp add: update_expense_def Let_def expense_unique_iff)

lemma expenses_ok_replace:
  assumes "expenses_ok st" and "expense_not_null row" and "expense_foreign_keys st row"
  shows "expenses_ok (st\<lparr>expenses := replace_row k row (expenses st)\<rparr>)"
proof -
  have "list_all (\<lambda>(k, r). expense_not_null r \<and> expense_foreign_keys st r)
          (replace_row k row (expenses st))"
    using assms set_replace_row [of k row "expenses st"]
    by (auto simp: expenses_ok_def list_all_iff)
  then show ?thesis using assms(1) by (simp add: expenses_ok_def ids_replace_row expense_foreign_keys_expenses)
qed

lemma integrity_update_expense:
  assumes "integrity st" shows "integrity (fst (update_expense now k chg st))"
proof (cases "lookup (expenses st) k")
  case None
  then show ?thesis using assms by (simp add: update_expense_NotFound)
next
  case (Some old)
  show ?thesis
  proof (cases "expense_not_null (expense_assign now chg old)
                \<and> expense_foreign_keys st (expense_assign now chg old)")
    case False
    show ?thesis
    proof (cases "expense_not_null (expense_assign now chg old)")
      case True
      with False have "\<not> expense_foreign_keys st (expense_assign now chg old)" by simp
      with True Some show ?thesis using assms by (simp add: update_expense_ForeignKey)
    next
      case False
      with Some show ?thesis using assms by (simp add: update_expense_NotNull)
    qed
  next
    case True
    let ?st = "st\<lparr>expenses := replace_row k (expense_assign now chg old) (expenses st)\<rparr>"
    have eq: "fst (update_expense now k chg st) = ?st"
      using True Some by (simp add: update_expense_ok)
    have "expenses_ok ?st" using assms True expenses_ok_replace by (simp add: integrity_def)
    moreover have "services_ok ?st" using assms by (simp add: integrity_def services_ok_def)
    moreover have "revenues_ok ?st" using assms
      by (rule_tac revenues_ok_frame [of _ st]) (auto simp: integrity_def)
    ultimately show ?thesis unfolding eq integrity_def by blast
  qed
qed

lemma integrity_delete_expense:
  assumes "integrity st" shows "integrity (fst (delete_expense k st))"
proof (cases "lookup (expenses st) k")
  case None
  then show ?thesis using assms by (simp add: delete_expense_def)
next
  case (Some old)
  let ?st = "st\<lparr>expenses := delete_row k (expenses st)\<rparr>"
  have eq: "fst (delete_expense k st) = ?st" using Some by (simp add: delete_expense_def)
  have "expenses_ok ?st" using assms
    by (auto simp: integrity_def expenses_ok_def expense_foreign_keys_expenses
        distinct_ids_delete_row list_all_iff set_delete_row)
  moreover have "services_ok ?st" using assms by (simp add: integrity_def services_ok_def)
  moreover have "revenues_ok ?st" using assms
    by (rule_tac revenues_ok_frame [of _ st]) (auto simp: integrity_def)
  ultimately show ?thesis unfolding eq integrity_def by blast
qed

lemma orphan_revenue_service_id: "revenue.service_id (orphan_revenue now r) = None"
  by (simp add: orphan_revenue_def revenue_assign_def update_value_def)

lemma orphan_revenue_not_null: "\<not> revenue_not_null (orphan_revenue now r)"
  by (simp add: revenue_not_null_iff orphan_revenue_service_id)

lemma orphan_expense_service_id: "expense.service_id (orphan_expense now r) = None"
  by (simp add: orphan_expense_def expense_assign_def update_value_def)

lemma orphan_expense_created_by:
  "expense.created_by (orphan_expense now r) = expense.created_by r"
  by (simp add: orphan_expense_def expense_assign_def update_value_def expense_no_changes_def
      Expense_created_by_def mapped_column_def)

lemma orphan_expense_not_null: "expense_not_null r \<Longrightarrow> expense_not_null (orphan_expense now r)"
  by (simp add: expense_not_null_iff orphan_expense_def expense_assign_def update_value_def
      expense_no_changes_def expense_columns mapped_column_def)

lemma delete_service_NotFound:
  "lookup (services st) k = None \<Longrightarrow> delete_service via now k st = (st, Inl NotFound)"
  by (simp add: delete_service_def)

lemma delete_service_Statement_refused:
  "lookup (services st) k = Some old \<Longrightarrow>
   Some k \<in> set (map (revenue.service_id \<circ> snd) (revenues st))
     \<or> Some k \<in> set (map (expense.service_id \<circ> snd) (expenses st)) \<Longrightarrow>
   delete_service Statement now k st = (st, Inl (IntegrityError ForeignKey))"
  by (simp add: delete_service_def)

lemma delete_service_Statement_ok:
  "lookup (services st) k = Some old \<Longrightarrow>
   Some k \<notin> set (map (revenue.service_id \<circ> snd) (revenues st)) \<Longrightarrow>
   Some k \<notin> set (map (expense.service_id \<circ> snd) (expenses st)) \<Longrightarrow>
   delete_service Statement now k st = (st\<lparr>services := delete_row k (services st)\<rparr>, Inr ())"
  by (simp add: delete_service_def)

lemma delete_service_Session_refused:
  "lookup (services st) k = Some old \<Longrightarrow>
   Some k \<in> set (map (revenue.service_id \<circ> snd) (revenues st)) \<Longrightarrow>
   delete_service Session now k st = (st, Inl (IntegrityError NotNull))"
proof -
  assume l: "lookup (services st) k = Some old"
    and m: "Some k \<in> set (map (revenue.service_id \<circ> snd) (revenues st))"
  from m obtain i r where "(i, r) \<in> set (revenues st)" "revenue.service_id r = Some k"
    by auto
  then have "list_ex (\<lambda>(i, r). revenue.service_id r = Some k
              \<and> \<not> revenue_not_null (orphan_revenue now r)) (revenues st)"
    unfolding list_ex_iff by (intro bexI [of _ "(i, r)"]) (simp_all add: orphan_revenue_not_null)
  then show ?thesis using l by (simp add: delete_service_def)
qed

lemma delete_service_Session_ok:
  assumes "lookup (services st) k = Some old"
    and "Some k \<notin> set (map (revenue.service_id \<circ> snd) (revenues st))"
    and "list_all (\<lambda>(i, r). expense_not_null r) (expenses st)"
  shows "delete_service Session now k st =
     (st\<lparr>services := delete_row k (services st),
         revenues := revenues st,
         expenses := map (\<lambda>(i, r). (i, if expense.service_id r = Some k
                                        then orphan_expense now r else r)) (expenses st)\<rparr>,
      Inr ())"
proof -
  have r: "\<not> list_ex (\<lambda>(i, r). revenue.service_id r = Some k
              \<and> \<not> revenue_not_null (orphan_revenue now r)) (revenues st)"
    using assms(2) by (force simp: list_ex_iff)
  have e: "\<not> list_ex (\<lambda>(i, r). expense.service_id r = Some k
              \<and> \<not> expense_not_null (orphan_expense now r)) (expenses st)"
    using assms(3) by (auto simp: list_ex_iff list_all_iff orphan_expense_not_null)
  have m: "map (\<lambda>(i, r). (i, if revenue.service_id r = Some k
                             then orphan_revenue now r else r)) (revenues st) = revenues st"
    using assms(2) by (intro map_idI) force
  show ?thesis using assms(1) r e m by (simp add: delete_service_def)
qed

lemma services_ok_delete:
  "services_ok st \<Longrightarrow> services st' = delete_row k (services st) \<Longrightarrow> services_ok st'"
  by (auto simp: services_ok_def distinct_ids_delete_row distinct_map_delete_row list_all_iff
      set_delete_row)

lemma revenue_foreign_keys_delete_service:
  "revenue_foreign_keys st r \<Longrightarrow> revenue.service_id r \<noteq> Some k \<Longrightarrow> users st' = users st \<Longrightarrow>
   services st' = delete_row k (services st) \<Longrightarrow> revenue_foreign_keys st' r"
  by (auto simp: revenue_foreign_keys_iff ids_delete_row)

lemma expense_foreign_keys_delete_service:
  "expense_foreign_keys st r \<Longrightarrow> expense.service_id r \<noteq> Some k \<Longrightarrow> users st' = users st \<Longrightarrow>
   services st' = delete_row k (services st) \<Longrightarrow> expense_foreign_keys st' r"
  by (auto simp: expense_foreign_keys_iff ids_delete_row)

lemma expense_foreign_keys_orphan:
  "expense_foreign_keys st r \<Longrightarrow> users st' = users st \<Longrightarrow>
   expense_foreign_keys st' (orphan_expense now r)"
  by (simp add: expense_foreign_keys_iff orphan_expense_service_id orphan_expense_created_by)

lemma revenues_ok_delete_service:
  assumes "revenues_ok st" and "Some k \<notin> set (map (revenue.service_id \<circ> snd) (revenues st))"
    and "revenues st' = revenues st" and "users st' = users st"
    and "services st' = delete_row k (services st)"
  shows "revenues_ok st'"
proof -
  have "revenue_foreign_keys st' r" if "(i, r) \<in> set (revenues st)" for i r
  proof -
    have "revenue_foreign_keys st r"
      using that assms(1) by (auto simp: revenues_ok_def list_all_iff)
    moreover have "revenue.service_id r \<noteq> Some k" using that assms(2) by force
    ultimately show ?thesis using assms(4,5) by (rule revenue_foreign_keys_delete_service)
  qed
  then show ?thesis using assms(1,3) by (auto simp: revenues_ok_def list_all_iff)
qed

lemma expenses_ok_delete_service:
  assumes "expenses_ok st" and "Some k \<notin> set (map (expense.service_id \<circ> snd) (expenses st))"
    and "expenses st' = expenses st" and "users st' = users st"
    and "services st' = delete_row k (services st)"
  shows "expenses_ok st'"
proof -
  have "expense_foreign_keys st' r" if "(i, r) \<in> set (expenses st)" for i r
  proof -
    have "expense_foreign_keys st r"
      using that assms(1) by (auto simp: expenses_ok_def list_all_iff)
    moreover have "expense.service_id r \<noteq> Some k" using that assms(2) by force
    ultimately show ?thesis using assms(4,5) by (rule expense_foreign_keys_delete_service)
  qed
  then show ?thesis using assms(1,3) by (auto simp: expenses_ok_def list_all_iff)
qed

lemma expenses_ok_orphaned:
  assumes "expenses_ok st" and "users st' = users st"
    and "services st' = delete_row k (services st)"
    and "expenses st' = map (\<lambda>(i, r). (i, if expense.service_id r = Some k
                                          then orphan_expense now r else r)) (expenses st)"
  shows "expenses_ok st'"
proof -
  let ?f = "\<lambda>(i, r). (i, if expense.service_id r = Some k then orphan_expense now r else r)"
  have keys: "ids (map ?f (expenses st)) = ids (expenses st)"
    by (auto simp: ids_def)
  have rows: "expense_not_null r' \<and> expense_foreign_keys st' r'"
    if "(i, r') \<in> set (map ?f (expenses st))" for i r'
  proof -
    from that obtain r where r: "(i, r) \<in> set (expenses st)"
      and r': "r' = (if expense.service_id r = Some k then orphan_expense now r else r)"
      by auto
    have ok: "expense_not_null r" "expense_foreign_keys st r"
      using r assms(1) by (auto simp: expenses_ok_def list_all_iff)
    show ?thesis
    proof (cases "expense.service_id r = Some k")
      case True
      then show ?thesis using r' ok assms(2)
        by (simp add: orphan_expense_not_null expense_foreign_keys_orphan)
    next
      case False
      then show ?thesis using r' ok assms(2,3)
        by (simp add: expense_foreign_keys_delete_service)
    qed
  qed
  have "list_all (\<lambda>(k, r). expense_not_null r \<and> expense_foreign_keys st' r)
          (map ?f (expenses st))"
    unfolding list_all_iff using rows by blast
  moreover have "distinct (ids (map ?f (expenses st)))"
    using assms(1) unfolding keys by (simp add: expenses_ok_def)
  ultimately show ?thesis unfolding expenses_ok_def assms(4) by blast
qed

lemma integrity_delete_service:
  assumes "integrity st" shows "integrity (fst (delete_service via now k st))"
proof (cases "lookup (services st) k")
  case None
  then show ?thesis using assms by (simp add: delete_service_NotFound)
next
  case (Some old)
  have i: "services_ok st" "revenues_ok st" "expenses_ok st"
    using assms by (simp_all add: integrity_def)
  show ?thesis
  proof (cases via)
    case Statement
    show ?thesis
    proof (cases "Some k \<in> set (map (revenue.service_id \<circ> snd) (revenues st))
                  \<or> Some k \<in> set (map (expense.service_id \<circ> snd) (expenses st))")
      case True
      then show ?thesis using assms Some Statement
        by (simp add: delete_service_Statement_refused)
    next
      case False
      let ?st = "st\<lparr>services := delete_row k (services st)\<rparr>"
      have eq: "fst (delete_service via now k st) = ?st"
        using False Some Statement by (simp add: delete_service_Statement_ok)
      have "services_ok ?st" using i(1) by (rule services_ok_delete) simp
      moreover have "revenues_ok ?st"
        using i(2) False by (rule_tac revenues_ok_delete_service [of st k]) simp_all
      moreover have "expenses_ok ?st"
        using i(3) False by (rule_tac expenses_ok_delete_service [of st k]) simp_all
      ultimately show ?thesis unfolding eq integrity_def by blast
    qed
  next
    case Session
    show ?thesis
    proof (cases "Some k \<in> set (map (revenue.service_id \<circ> snd) (revenues st))")
      case True
      then show ?thesis using assms Some Session
        by (simp add: delete_service_Session_refused)
    next
      case False
      let ?st = "st\<lparr>services := delete_row k (services st),
         revenues := revenues st,
         expenses := map (\<lambda>(i, r). (i, if expense.service_id r = Some k
                                        then orphan_expense now r else r)) (expenses st)\<rparr>"
      have nn: "list_all (\<lambda>(i, r). expense_not_null r) (expenses st)"
        using i(3) by (auto simp: expenses_ok_def list_all_iff)
      have eq: "fst (delete_service via now k st) = ?st"
        using delete_service_Session_ok [OF Some False nn, of now] Session by simp
      have "services_ok ?st" using i(1) by (rule services_ok_delete) simp
      moreover have "revenues_ok ?st"
        using i(2) False by (rule_tac revenues_ok_delete_service [of st k]) simp_all
      moreover have "expenses_ok ?st"
        using i(3) by (rule_tac expenses_ok_orphaned [of st _ k now]) simp_all
      ultimately show ?thesis unfolding eq integrity_def by blast
    qed
  qed
qed

lemma integrity_delete_user:
  assumes "integrity st" shows "integrity (fst (delete_user k st))"
proof (cases "k \<in> set (users st)
              \<and> Some k \<notin> set (map (revenue.created_by \<circ> snd) (revenues st))
              \<and> Some k \<notin> set (map (expense.created_by \<circ> snd) (expenses st))")
  case False
  then have "fst (delete_user k st) = st" by (auto simp: delete_user_def)
  then show ?thesis using assms by simp
next
  case True
  let ?st = "st\<lparr>users := filter (\<lambda>i. i \<noteq> k) (users st)\<rparr>"
  have eq: "fst (delete_user k st) = ?st" using True by (simp add: delete_user_def)
  have "services_ok ?st" using assms by (simp add: integrity_def services_ok_def)
  moreover have "revenues_ok ?st"
  proof -
    have "revenue_foreign_keys ?st r" if "(i, r) \<in> set (revenues st)" for i r
    proof -
      have "revenue.created_by r \<noteq> Some k" using that True by force
      moreover have "revenue_foreign_keys st r"
        using that assms by (auto simp: integrity_def revenues_ok_def list_all_iff)
      ultimately show ?thesis by (auto simp: revenue_foreign_keys_iff)
    qed
    then show ?thesis using assms by (auto simp: integrity_def revenues_ok_def list_all_iff)
  qed
  moreover have "expenses_ok ?st"
  proof -
    have "expense_foreign_keys ?st r" if "(i, r) \<in> set (expenses st)" for i r
    proof -
      have "expense.created_by r \<noteq> Some k" using that True by force
      moreover have "expense_foreign_keys st r"
        using that assms by (auto simp: integrity_def expenses_ok_def list_all_iff)
      ultimately show ?thesis by (auto simp: expense_foreign_keys_iff)
    qed
    then show ?thesis using assms by (auto simp: integrity_def expenses_ok_def list_all_iff)
  qed
  ultimately show ?thesis unfolding eq integrity_def by blast
qed

lemma integrity_exec: "integrity st \<Longrightarrow> integrity (exec opn st)"
  by (cases opn)
    (simp_all add: integrity_insert_user integrity_delete_user integrity_insert_service
      integrity_update_service integrity_delete_service integrity_insert_revenue
      integrity_update_revenue integrity_delete_revenue integrity_insert_expense
      integrity_update_expense integrity_delete_expense)

lemma reachable_integrity: "reachable st \<Longrightarrow> integrity st"
  by (induction rule: reachable.induct) (simp_all add: integrity_empty integrity_exec)

subsection \<open>The example store\<close>

lemmas insert_defs =
  insert_value_def scalar_def utcnow_def mapped_column_def

lemma demo_store_eq:
  "demo_store =
     \<lparr> users = [],
       services = [(1, \<lparr> service.name = Some ''Transport'', description = None,
                         icon = Some ''building'', color = Some ''blue'',
                         is_active = Some True, daily_target = Some 0,
                         monthly_target = Some 0, yearly_target = Some 0,
                         created_at = Some 10, updated_at = Some 10 \<rparr>)],
       revenues = [(1, \<lparr> revenue.service_id = Some 1, amount = Some 250, date = Some 19000,
                         description = None, payment_method = Some ''cash'',
                         reference = None, created_by = None,
                         created_at = Some 20, updated_at = Some 20 \<rparr>)],
       expenses = [(1, \<lparr> expense.service_id = None, amount = Some 40, date = Some 19000,
                         category = Some ''fixed'', description = None, vendor = None,
                         is_recurring = Some False, created_by = None,
                         created_at = Some 30, updated_at = Some 30 \<rparr>)] \<rparr>"
proof -
  have s: "exec (InsertService 10 demo_service) empty_store =
     \<lparr> users = [],
       services = [(1, \<lparr> service.name = Some ''Transport'', description = None,
                         icon = Some ''building'', color = Some ''blue'',
                         is_active = Some True, daily_target = Some 0,
                         monthly_target = Some 0, yearly_target = Some 0,
                         created_at = Some 10, updated_at = Some 10 \<rparr>)],
       revenues = [], expenses = [] \<rparr>"
    by (simp add: insert_service_def Let_def service_defaults_def service_not_null_iff
        service_unique_iff demo_service_def empty_store_def service_columns insert_defs
        next_id_def ids_def)
  have r: "exec (InsertRevenue 20 demo_revenue) (exec (InsertService 10 demo_service) empty_store) =
     \<lparr> users = [],
       services = [(1, \<lparr> service.name = Some ''Transport'', description = None,
                         icon = Some ''building'', color = Some ''blue'',
                         is_active = Some True, daily_target = Some 0,
                         monthly_target = Some 0, yearly_target = Some 0,
                         created_at = Some 10, updated_at = Some 10 \<rparr>)],
       revenues = [(1, \<lparr> revenue.service_id = Some 1, amount = Some 250, date = Some 19000,
                         description = None, payment_method = Some ''cash'',
                         reference = None, created_by = None,
                         created_at = Some 20, updated_at = Some 20 \<rparr>)],
       expenses = [] \<rparr>"
    unfolding s
    by (simp add: insert_revenue_def Let_def revenue_defaults_def revenue_not_null_iff
        revenue_unique_iff revenue_foreign_keys_iff demo_revenue_def revenue_columns insert_defs
        next_id_def ids_def)
  show ?thesis
    unfolding demo_store_def r
    by (simp add: insert_expense_def Let_def expense_defaults_def expense_not_null_iff
        expense_unique_iff expense_foreign_keys_iff demo_expense_def expense_columns insert_defs
        next_id_def ids_def)
qed

lemma reachable_demo_store: "reachable demo_store"
  unfolding demo_store_def by (intro reachable_exec reachable_empty)

subsection \<open>What an insertion fills in\<close>

lemma insert_value_no_default: "default_value c = None \<Longrightarrow> insert_value c now v = v"
  by (cases v) (simp_all add: insert_value_def)

lemma insert_value_eq_None:
  "insert_value c now v = None \<longleftrightarrow> v = None \<and> default_value c = None"
  by (cases v; cases "default_value c") (simp_all add: insert_value_def)

lemmas column_values = insert_value_no_default insert_value_eq_None mapped_column_def

lemma service_defaults_name: "service.name (service_defaults now v) = service.name v"
  by (simp add: service_defaults_def Service_name_def column_values)

lemma service_defaults_not_null:
  "service_not_null (service_defaults now v) \<longleftrightarrow> service.name v \<noteq> None"
  by (simp add: service_not_null_iff service_defaults_def service_columns column_values)






lemma expense_defaults_fields:
  "expense.service_id (expense_defaults now v) = expense.service_id v"
  "expense.amount (expense_defaults now v) = expense.amount v"
  "expense.date (expense_defaults now v) = expense.date v"
  "expense.category (expense_defaults now v) = expense.category v"
  "expense.description (expense_defaults now v) = expense.description v"
  "expense.vendor (expense_defaults now v) = expense.vendor v"
  "expense.created_by (expense_defaults now v) = expense.created_by v"
  by (simp_all add: expense_defaults_def expense_columns column_values)

lemma expense_defaults_not_null:
  "expense_not_null (expense_defaults now v) \<longleftrightarrow>
     expense.amount v \<noteq> None \<and> expense.date v \<noteq> None \<and> expense.category v \<noteq> None"
  by (simp add: expense_not_null_iff expense_defaults_def expense_columns column_values)

lemma expense_defaults_foreign_keys:
  "expense_foreign_keys st (expense_defaults now v) = expense_foreign_keys st v"
  by (simp add: expense_foreign_keys_iff expense_defaults_fields)





subsection \<open>Revenue and expense references\<close>





subsection \<open>Service names\<close>

lemma reachable_names_distinct:
  "reachable st \<Longrightarrow> distinct (map (service.name \<circ> snd) (services st))"
  using reachable_integrity [of st] by (simp add: integrity_def services_ok_def)

text \<open>
  C4. In every reachable store no two services have the same name. Inserting a service
  whose name is already stored fails with a uniqueness violation and leaves the store as it
  was; inserting a service with a name that is not stored succeeds, with a fresh key, and
  a list of services with pairwise distinct names, none of them stored, is inserted in full
  by inserting them one after the other.
\<close>

theorem service_name_is_unique:
  assumes "reachable st"
  shows "distinct (map (service.name \<circ> snd) (services st))
       \<and> (\<forall>n. service.name v = Some n
              \<and> Some n \<in> set (map (service.name \<circ> snd) (services st)) \<longrightarrow>
            insert_service now v st = (st, Inl (IntegrityError Unique)))
       \<and> (\<forall>n. service.name v = Some n
              \<and> Some n \<notin> set (map (service.name \<circ> snd) (services st)) \<longrightarrow>
            (\<exists>k row. insert_service now v st
                        = (st\<lparr>services := services st @ [(k, row)]\<rparr>, Inr (k, row))
                    \<and> service.name row = Some n \<and> k \<notin> set (ids (services st))))
       \<and> (distinct (map service.name vs) \<and> None \<notin> set (map service.name vs)
            \<and> set (map service.name vs) \<inter> set (map (service.name \<circ> snd) (services st)) = {}
          \<longrightarrow> map (service.name \<circ> snd)
                 (services (fold (\<lambda>v s. fst (insert_service now v s)) vs st))
               = map (service.name \<circ> snd) (services st) @ map service.name vs)"
proof (intro conjI)
  show "distinct (map (service.name \<circ> snd) (services st))"
    using assms by (rule reachable_names_distinct)
next
  show "\<forall>n. service.name v = Some n
              \<and> Some n \<in> set (map (service.name \<circ> snd) (services st)) \<longrightarrow>
            insert_service now v st = (st, Inl (IntegrityError Unique))"
  proof (intro allI impI)
    fix n assume a: "service.name v = Some n
              \<and> Some n \<in> set (map (service.name \<circ> snd) (services st))"
    have "service_not_null (service_defaults now v)"
      using a by (simp add: service_defaults_not_null)
    moreover have "\<not> service_unique (services st) (service_defaults now v)"
      using a by (simp add: service_unique_iff service_defaults_name)
    ultimately show "insert_service now v st = (st, Inl (IntegrityError Unique))"
      by (rule insert_service_Unique)
  qed
next
  show "\<forall>n. service.name v = Some n
              \<and> Some n \<notin> set (map (service.name \<circ> snd) (services st)) \<longrightarrow>
            (\<exists>k row. insert_service now v st
                        = (st\<lparr>services := services st @ [(k, row)]\<rparr>, Inr (k, row))
                    \<and> service.name row = Some n \<and> k \<notin> set (ids (services st)))"
  proof (intro allI impI)
    fix n assume a: "service.name v = Some n
              \<and> Some n \<notin> set (map (service.name \<circ> snd) (services st))"
    have "service_not_null (service_defaults now v)"
      using a by (simp add: service_defaults_not_null)
    moreover have "service_unique (services st) (service_defaults now v)"
      using a by (simp add: service_unique_iff service_defaults_name)
    ultimately have "insert_service now v st =
       (st\<lparr>services := services st @ [(next_id (ids (services st)), service_defaults now v)]\<rparr>,
        Inr (next_id (ids (services st)), service_defaults now v))"
      by (rule insert_service_ok)
    moreover have "service.name (service_defaults now v) = Some n"
      using a by (simp add: service_defaults_name)
    ultimately show "\<exists>k row. insert_service now v st
                        = (st\<lparr>services := services st @ [(k, row)]\<rparr>, Inr (k, row))
                    \<and> service.name row = Some n \<and> k \<notin> set (ids (services st))"
      using next_id_fresh [of "ids (services st)"] by blast
  qed
next
  have run: "distinct (map service.name vs) \<Longrightarrow> None \<notin> set (map service.name vs) \<Longrightarrow>
      set (map service.name vs) \<inter> set (map (service.name \<circ> snd) (services s)) = {} \<Longrightarrow>
      map (service.name \<circ> snd) (services (fold (\<lambda>v s. fst (insert_service now v s)) vs s))
        = map (service.name \<circ> snd) (services s) @ map service.name vs" for s
  proof (induction vs arbitrary: s)
    case Nil
    then show ?case by simp
  next
    case (Cons x xs)
    let ?s = "s\<lparr>services := services s @
                 [(next_id (ids (services s)), service_defaults now x)]\<rparr>"
    have "service_not_null (service_defaults now x)"
      using Cons.prems(2) by (auto simp: service_defaults_not_null)
    moreover have "service_unique (services s) (service_defaults now x)"
      using Cons.prems(3) by (auto simp: service_unique_iff service_defaults_name)
    ultimately have step: "fst (insert_service now x s) = ?s"
      by (simp add: insert_service_ok)
    have names: "map (service.name \<circ> snd) (services ?s)
                  = map (service.name \<circ> snd) (services s) @ [service.name x]"
      by (simp add: service_defaults_name)
    have "set (map service.name xs) \<inter> set (map (service.name \<circ> snd) (services ?s)) = {}"
      using Cons.prems(1,3) unfolding names by auto
    moreover have "distinct (map service.name xs)" "None \<notin> set (map service.name xs)"
      using Cons.prems(1,2) by auto
    ultimately have "map (service.name \<circ> snd)
          (services (fold (\<lambda>v s. fst (insert_service now v s)) xs ?s))
        = map (service.name \<circ> snd) (services ?s) @ map service.name xs"
      by (intro Cons.IH)
    then show ?case unfolding names by (simp add: step comp_def)
  qed
  show "distinct (map service.name vs) \<and> None \<notin> set (map service.name vs)
            \<and> set (map service.name vs) \<inter> set (map (service.name \<circ> snd) (services st)) = {}
          \<longrightarrow> map (service.name \<circ> snd)
                 (services (fold (\<lambda>v s. fst (insert_service now v s)) vs st))
               = map (service.name \<circ> snd) (services st) @ map service.name vs"
    using run by blast
qed

text \<open>
  In the example store, which holds the service "Transport": a second "Transport" is
  refused, "Catering" is accepted, and "Catering" and "Retail" inserted one after the other
  are both stored.
\<close>

theorem service_name_is_unique_witness:
  "reachable demo_store
   \<and> Some ''Transport'' \<in> set (map (service.name \<circ> snd) (services demo_store))
   \<and> insert_service 40 demo_service demo_store = (demo_store, Inl (IntegrityError Unique))
   \<and> Some ''Catering'' \<notin> set (map (service.name \<circ> snd) (services demo_store))
   \<and> (\<exists>k row. insert_service 40 (demo_service\<lparr>service.name := Some ''Catering''\<rparr>) demo_store
                  = (demo_store\<lparr>services := services demo_store @ [(k, row)]\<rparr>, Inr (k, row))
              \<and> service.name row = Some ''Catering'')
   \<and> map (service.name \<circ> snd)
         (services (fold (\<lambda>v s. fst (insert_service 40 v s))
                      [demo_service\<lparr>service.name := Some ''Catering''\<rparr>,
                       demo_service\<lparr>service.name := Some ''Retail''\<rparr>] demo_store))
       = [Some ''Transport'', Some ''Catering'', Some ''Retail'']"
proof -
  let ?c = "demo_service\<lparr>service.name := Some ''Catering''\<rparr>"
  let ?r = "demo_service\<lparr>service.name := Some ''Retail''\<rparr>"
  have names: "map (service.name \<circ> snd) (services demo_store) = [Some ''Transport'']"
    by (simp add: demo_store_eq)
  have stored: "service.name demo_service = Some ''Transport''
      \<and> Some ''Transport'' \<in> set (map (service.name \<circ> snd) (services demo_store))"
    unfolding names by (simp add: demo_service_def)
  have fresh: "service.name ?c = Some ''Catering''
      \<and> Some ''Catering'' \<notin> set (map (service.name \<circ> snd) (services demo_store))"
    unfolding names by simp
  have both: "distinct (map service.name [?c, ?r]) \<and> None \<notin> set (map service.name [?c, ?r])
      \<and> set (map service.name [?c, ?r])
          \<inter> set (map (service.name \<circ> snd) (services demo_store)) = {}"
    unfolding names by simp
  from service_name_is_unique [OF reachable_demo_store, where v = demo_service and now = 40]
    stored
  have a: "insert_service 40 demo_service demo_store = (demo_store, Inl (IntegrityError Unique))"
    by blast
  from service_name_is_unique [OF reachable_demo_store, where v = ?c and now = 40] fresh
  have b: "\<exists>k row. insert_service 40 ?c demo_store
                  = (demo_store\<lparr>services := services demo_store @ [(k, row)]\<rparr>, Inr (k, row))
              \<and> service.name row = Some ''Catering''"
    by blast
  from service_name_is_unique [OF reachable_demo_store, where vs = "[?c, ?r]" and now = 40] both
  have "map (service.name \<circ> snd)
         (services (fold (\<lambda>v s. fst (insert_service 40 v s)) [?c, ?r] demo_store))
       = map (service.name \<circ> snd) (services demo_store) @ map service.name [?c, ?r]"
    by blast
  then have c: "map (service.name \<circ> snd)
         (services (fold (\<lambda>v s. fst (insert_service 40 v s)) [?c, ?r] demo_store))
       = [Some ''Transport'', Some ''Catering'', Some ''Retail'']"
    unfolding names by simp
  from reachable_demo_store stored fresh a b c show ?thesis by blast
qed

subsection \<open>The outcome of an insertion\<close>



lemma insert_expense_outcome:
  "insert_expense now v st =
     (if expense.amount v = None \<or> expense.date v = None \<or> expense.category v = None
        then (st, Inl (IntegrityError NotNull))
      else if \<not> expense_foreign_keys st v then (st, Inl (IntegrityError ForeignKey))
      else (st\<lparr>expenses := expenses st @
                 [(next_id (ids (expenses st)), expense_defaults now v)]\<rparr>,
            Inr (next_id (ids (expenses st)), expense_defaults now v)))"
proof (cases "expense_not_null (expense_defaults now v)")
  case False
  then show ?thesis by (auto simp: insert_expense_NotNull expense_defaults_not_null)
next
  case True
  then have f: "\<not> (expense.amount v = None \<or> expense.date v = None \<or> expense.category v = None)"
    by (simp add: expense_defaults_not_null)
  show ?thesis
  proof (cases "expense_foreign_keys st v")
    case False
    then have "\<not> expense_foreign_keys st (expense_defaults now v)"
      by (simp add: expense_defaults_foreign_keys)
    then show ?thesis using True f False by (simp add: insert_expense_ForeignKey)
  next
    case fk: True
    then have "expense_foreign_keys st (expense_defaults now v)"
      by (simp add: expense_defaults_foreign_keys)
    then show ?thesis using True f fk by (simp add: insert_expense_ok)
  qed
qed

lemmas required_checks = missing_def required_def is_nullable_def mapped_column_def









subsection \<open>Insertion\<close>





text \<open>
  C9. The category of an expense is required: its column is NOT NULL and has no default,
  and an expense without a category is refused with a NOT NULL violation. The columns
  \<open>description\<close> and \<open>vendor\<close> of the same table are nullable, and an expense with
  neither is stored with both NULL once amount, date and category are given and the foreign
  keys resolve.
\<close>

theorem expense_category_is_required:
  "\<not> is_nullable Expense_category \<and> required Expense_category
   \<and> is_nullable Expense_description \<and> is_nullable Expense_vendor
   \<and> (expense.category v = None \<longrightarrow>
        insert_expense now v st = (st, Inl (IntegrityError NotNull)))
   \<and> (expense.amount v \<noteq> None \<and> expense.date v \<noteq> None \<and> expense.category v \<noteq> None
        \<and> expense_foreign_keys st v \<longrightarrow>
      (\<exists>k row. insert_expense now (v\<lparr>expense.description := None, expense.vendor := None\<rparr>) st
                  = (st\<lparr>expenses := expenses st @ [(k, row)]\<rparr>, Inr (k, row))
              \<and> expense.description row = None \<and> expense.vendor row = None))"
proof (intro conjI impI)
  show "\<not> is_nullable Expense_category" "required Expense_category"
    "is_nullable Expense_description" "is_nullable Expense_vendor"
    by (simp_all add: required_checks expense_columns)
next
  assume "expense.category v = None"
  then show "insert_expense now v st = (st, Inl (IntegrityError NotNull))"
    by (simp add: insert_expense_outcome)
next
  assume a: "expense.amount v \<noteq> None \<and> expense.date v \<noteq> None \<and> expense.category v \<noteq> None
        \<and> expense_foreign_keys st v"
  let ?v = "v\<lparr>expense.description := None, expense.vendor := None\<rparr>"
  have fk: "expense_foreign_keys st ?v" using a by (simp add: expense_foreign_keys_iff)
  have "insert_expense now ?v st =
      (st\<lparr>expenses := expenses st @ [(next_id (ids (expenses st)), expense_defaults now ?v)]\<rparr>,
       Inr (next_id (ids (expenses st)), expense_defaults now ?v))"
    using a fk by (simp add: insert_expense_outcome)
  moreover have "expense.description (expense_defaults now ?v) = None
      \<and> expense.vendor (expense_defaults now ?v) = None"
    by (simp add: expense_defaults_fields)
  ultimately show "\<exists>k row. insert_expense now ?v st
                  = (st\<lparr>expenses := expenses st @ [(k, row)]\<rparr>, Inr (k, row))
              \<and> expense.description row = None \<and> expense.vendor row = None"
    by blast
qed

text \<open>
  In the example store: the example expense without its category is refused; the example
  expense, which has neither description nor vendor, is stored.
\<close>

theorem expense_category_is_required_witness:
  "insert_expense 40 (demo_expense\<lparr>expense.category := None\<rparr>) demo_store
     = (demo_store, Inl (IntegrityError NotNull))
   \<and> (\<exists>k row. insert_expense 40 demo_expense demo_store
                  = (demo_store\<lparr>expenses := expenses demo_store @ [(k, row)]\<rparr>, Inr (k, row))
              \<and> expense.description row = None \<and> expense.vendor row = None)"
proof -
  have n: "expense.category (demo_expense\<lparr>expense.category := None\<rparr>) = None" by simp
  have e: "expense.amount demo_expense \<noteq> None \<and> expense.date demo_expense \<noteq> None
      \<and> expense.category demo_expense \<noteq> None \<and> expense_foreign_keys demo_store demo_expense"
    by (simp add: demo_expense_def demo_store_eq expense_foreign_keys_iff ids_def)
  have same: "demo_expense\<lparr>expense.description := None, expense.vendor := None\<rparr> = demo_expense"
    by (simp add: demo_expense_def)
  from expense_category_is_required
         [where v = "demo_expense\<lparr>expense.category := None\<rparr>" and st = demo_store and now = 40] n
  have a: "insert_expense 40 (demo_expense\<lparr>expense.category := None\<rparr>) demo_store
     = (demo_store, Inl (IntegrityError NotNull))"
    by blast
  from expense_category_is_required [where v = demo_expense and st = demo_store and now = 40] e
  have "\<exists>k row. insert_expense 40 (demo_expense\<lparr>expense.description := None, expense.vendor := None\<rparr>)
                    demo_store
                  = (demo_store\<lparr>expenses := expenses demo_store @ [(k, row)]\<rparr>, Inr (k, row))
              \<and> expense.description row = None \<and> expense.vendor row = None"
    by blast
  then have b: "\<exists>k row. insert_expense 40 demo_expense demo_store
                  = (demo_store\<lparr>expenses := expenses demo_store @ [(k, row)]\<rparr>, Inr (k, row))
              \<and> expense.description row = None \<and> expense.vendor row = None"
    unfolding same .
  from a b show ?thesis by (intro conjI)
qed

subsection \<open>Update\<close>














end
